theory Spec2Isabelle
  imports Main "HOL-Library.AList"
begin

section \<open>Strings and regular expressions of the host language\<close>

text \<open>
  Strings are lists of characters; the model covers the code units below 256. The four
  characters the source writes with an escape get a name.
\<close>

abbreviation DQ :: char where "DQ \<equiv> CHR 0x22"
abbreviation SQ :: char where "SQ \<equiv> CHR 0x27"
abbreviation BQ :: char where "BQ \<equiv> CHR 0x60"
abbreviation NL :: char where "NL \<equiv> CHR 0x0A"

text \<open>White space (\<open>\s\<close>, and what \<open>trim\<close> removes) and line terminators.\<close>

definition is_space :: "char \<Rightarrow> bool" where
  "is_space c = (c \<in> set [CHR 0x09, CHR 0x0A, CHR 0x0B, CHR 0x0C, CHR 0x0D, CHR 0x20, CHR 0xA0])"

definition is_line_terminator :: "char \<Rightarrow> bool" where
  "is_line_terminator c = (c \<in> set [CHR 0x0A, CHR 0x0D])"

definition trim :: "string \<Rightarrow> string" where
  "trim s = rev (dropWhile is_space (rev (dropWhile is_space s)))"

text \<open>\<open>s.slice(i, j)\<close> for \<open>0 \<le> i\<close> and \<open>0 \<le> j\<close>, and \<open>s.slice(i)\<close>.\<close>

definition slice :: "string \<Rightarrow> nat \<Rightarrow> nat \<Rightarrow> string" where
  "slice s i j = take (j - i) (drop i s)"

definition slice_from :: "string \<Rightarrow> nat \<Rightarrow> string" where
  "slice_from s i = drop i s"

text \<open>
  \<open>s.indexOf(c)\<close> for a one-character string \<open>c\<close>: \<open>None\<close> is the result \<open>-1\<close>.
\<close>

fun indexOf :: "string \<Rightarrow> char \<Rightarrow> nat option" where
  "indexOf [] c = None"
| "indexOf (x # xs) c = (if x = c then Some 0 else map_option Suc (indexOf xs c))"

text \<open>
  \<open>s.split(c)\<close> for a one-character separator: every occurrence separates, and the
  result has at least one piece. \<open>s.split(c, limit)\<close> keeps the first \<open>limit\<close>
  pieces of that result.
\<close>

fun split_char :: "char \<Rightarrow> string \<Rightarrow> string list" where
  "split_char c [] = [[]]"
| "split_char c (x # xs) =
     (if x = c then [] # split_char c xs
      else (case split_char c xs of
              [] \<Rightarrow> [[x]]
            | p # ps \<Rightarrow> (x # p) # ps))"

definition split_limit :: "char \<Rightarrow> nat \<Rightarrow> string \<Rightarrow> string list" where
  "split_limit c limit s = take limit (split_char c s)"

text \<open>
  \<open>content.replace(original, "")\<close> with a string pattern: the first occurrence of
  \<open>original\<close> is removed; without an occurrence the content is returned as it is.
\<close>

fun is_prefix :: "string \<Rightarrow> string \<Rightarrow> bool" where
  "is_prefix [] s = True"
| "is_prefix (p # ps) [] = False"
| "is_prefix (p # ps) (x # xs) = (p = x \<and> is_prefix ps xs)"

fun remove_first :: "string \<Rightarrow> string \<Rightarrow> string" where
  "remove_first original [] = []"
| "remove_first original (x # xs) =
     (if is_prefix original (x # xs) then drop (length original) (x # xs)
      else x # remove_first original xs)"

text \<open>
  The regular expressions the plugin writes, as a syntax tree: characters and character
  classes, sequence, the greedy quantifiers \<open>?\<close> and \<open>*\<close>, the one capturing group
  and its back reference \<open>\1\<close>, the lookahead \<open>(?=r)\<close>, and the assertions \<open>^\<close>,
  \<open>$\<close> and \<open>$\<close> under the flag \<open>m\<close>.
\<close>

datatype regex =
    Eps
  | Lit char
  | OneOf string
  | NoneOf string
  | Space
  | Cat regex regex
  | Opt regex
  | Star regex
  | Grp regex
  | Backref
  | Ahead regex
  | Bos
  | Eos
  | Eol

fun seq :: "regex list \<Rightarrow> regex" where
  "seq [] = Eps"
| "seq (r # rs) = Cat r (seq rs)"

text \<open>
  A state of the backtracking matcher: the capture of group 1 (\<open>None\<close> is
  \<open>undefined\<close>), the position in the input and the input from there on.
\<close>

record mstate =
  m_cap :: "string option"
  m_pos :: nat
  m_rest :: string

definition advance :: "nat \<Rightarrow> mstate \<Rightarrow> mstate" where
  "advance n st = st\<lparr>m_pos := m_pos st + n, m_rest := drop n (m_rest st)\<rparr>"

definition step_if :: "(char \<Rightarrow> bool) \<Rightarrow> mstate \<Rightarrow> mstate list" where
  "step_if p st = (case m_rest st of [] \<Rightarrow> [] | c # cs \<Rightarrow> if p c then [advance 1 st] else [])"

fun has_grp :: "regex \<Rightarrow> bool" where
  "has_grp (Grp r) = True"
| "has_grp (Cat r1 r2) = (has_grp r1 \<or> has_grp r2)"
| "has_grp (Opt r) = has_grp r"
| "has_grp (Star r) = has_grp r"
| "has_grp (Ahead r) = has_grp r"
| "has_grp r = False"

text \<open>Each round of a quantifier starts with the captures inside it cleared.\<close>

definition enter_rep :: "regex \<Rightarrow> mstate \<Rightarrow> mstate" where
  "enter_rep r st = (if has_grp r then st\<lparr>m_cap := None\<rparr> else st)"

text \<open>
  \<open>rmatch r st\<close> lists the states in which a match of \<open>r\<close> from \<open>st\<close> can end, in
  the order in which backtracking tries them: a greedy quantifier tries one more round
  first, and a round of \<open>*\<close> that consumes nothing is not taken. The head of the list
  is the match the engine reports.
\<close>

function rmatch :: "regex \<Rightarrow> mstate \<Rightarrow> mstate list" where
  "rmatch Eps st = [st]"
| "rmatch (Lit c) st = step_if (\<lambda>x. x = c) st"
| "rmatch (OneOf cs) st = step_if (\<lambda>x. x \<in> set cs) st"
| "rmatch (NoneOf cs) st = step_if (\<lambda>x. x \<notin> set cs) st"
| "rmatch Space st = step_if is_space st"
| "rmatch (Cat r1 r2) st = concat (map (rmatch r2) (rmatch r1 st))"
| "rmatch (Opt r) st = rmatch r (enter_rep r st) @ [st]"
| "rmatch (Star r) st =
     concat (map (\<lambda>st'. if length (m_rest st') < length (m_rest st) then rmatch (Star r) st' else [])
               (rmatch r (enter_rep r st))) @ [st]"
| "rmatch (Grp r) st =
     map (\<lambda>st'. st'\<lparr>m_cap := Some (take (m_pos st' - m_pos st) (m_rest st))\<rparr>) (rmatch r st)"
| "rmatch Backref st =
     (case m_cap st of
        None \<Rightarrow> [st]
      | Some s \<Rightarrow> if is_prefix s (m_rest st) then [advance (length s) st] else [])"
| "rmatch (Ahead r) st =
     (case rmatch r st of [] \<Rightarrow> [] | st' # sts \<Rightarrow> [st\<lparr>m_cap := m_cap st'\<rparr>])"
| "rmatch Bos st = (if m_pos st = 0 then [st] else [])"
| "rmatch Eos st = (if m_rest st = [] then [st] else [])"
| "rmatch Eol st =
     (case m_rest st of [] \<Rightarrow> [st] | c # cs \<Rightarrow> if is_line_terminator c then [st] else [])"
  by pat_completeness auto
termination
  by (relation "inv_image (less_than <*lex*> less_than) (\<lambda>(r, st). (size r, length (m_rest st)))")
     auto

text \<open>
  The equation of \<open>*\<close> mentions \<open>rmatch (Star r)\<close> on its right: it is unfolded only
  where a proof asks for it.
\<close>

lemmas rmatch_Star = rmatch.simps(8)

declare rmatch.simps(8) [simp del]

text \<open>
  A match as \<open>exec\<close> and \<open>match\<close> return it: \<open>index\<close>, where it ends, the matched
  text (element 0) and group 1 (element 1).
\<close>

record rmatch_result =
  r_index :: nat
  r_end :: nat
  r_text :: string
  r_group :: "string option"

text \<open>A match that starts at position \<open>i\<close> of \<open>s\<close>.\<close>

definition match_at :: "regex \<Rightarrow> string \<Rightarrow> nat \<Rightarrow> rmatch_result option" where
  "match_at r s i =
     (case rmatch r \<lparr>m_cap = None, m_pos = i, m_rest = drop i s\<rparr> of
        [] \<Rightarrow> None
      | st # sts \<Rightarrow>
          Some \<lparr>r_index = i, r_end = m_pos st, r_text = slice s i (m_pos st), r_group = m_cap st\<rparr>)"

text \<open>The first match at or after position \<open>i\<close>: the search of \<open>exec\<close> from \<open>lastIndex\<close>.\<close>

function exec_from :: "regex \<Rightarrow> string \<Rightarrow> nat \<Rightarrow> rmatch_result option" where
  "exec_from r s i =
     (if i > length s then None
      else (case match_at r s i of
              Some m \<Rightarrow> Some m
            | None \<Rightarrow> exec_from r s (Suc i)))"
  by pat_completeness auto
termination
  by (relation "measure (\<lambda>(r, s, i). Suc (length s) - i)") auto

text \<open>\<open>re.test(s)\<close> and \<open>s.match(re)\<close> for a regular expression without the flag \<open>g\<close>.\<close>

definition re_match :: "regex \<Rightarrow> string \<Rightarrow> rmatch_result option" where
  "re_match r s = exec_from r s 0"

definition re_test :: "regex \<Rightarrow> string \<Rightarrow> bool" where
  "re_test r s = (re_match r s \<noteq> None)"

text \<open>
  A match never ends before it starts, and the search never finds a match before the
  position it starts from: the facts the two loops below terminate by.
\<close>

lemma step_if_pos: "st' \<in> set (step_if p st) \<Longrightarrow> m_pos st \<le> m_pos st'"
  by (cases "m_rest st") (simp_all add: step_if_def advance_def split: if_splits)

lemma rmatch_pos: "st' \<in> set (rmatch r st) \<Longrightarrow> m_pos st \<le> m_pos st'"
proof (induction r st arbitrary: st' rule: rmatch.induct)
  case (1 st)
  then show ?case by simp
next
  case (2 c st)
  then show ?case by (simp add: step_if_pos)
next
  case (3 cs st)
  then show ?case by (simp add: step_if_pos)
next
  case (4 cs st)
  then show ?case by (simp add: step_if_pos)
next
  case (5 st)
  then show ?case by (simp add: step_if_pos)
next
  case (6 r1 r2 st)
  then obtain mid where mid: "mid \<in> set (rmatch r1 st)" and st': "st' \<in> set (rmatch r2 mid)"
    by auto
  from "6.IH"(1) [OF mid] "6.IH"(2) [OF mid st'] show ?case by simp
next
  case (7 r st)
  from "7.prems" consider "st' = st" | "st' \<in> set (rmatch r (enter_rep r st))"
    by auto
  then show ?case
  proof cases
    case 1
    then show ?thesis by simp
  next
    case 2
    from "7.IH" [OF 2] show ?thesis by (simp add: enter_rep_def split: if_splits)
  qed
next
  case (8 r st)
  from "8.prems" have "st' \<in> set (concat (map (\<lambda>st'. if length (m_rest st') < length (m_rest st)
      then rmatch (Star r) st' else []) (rmatch r (enter_rep r st))) @ [st])"
    by (simp only: rmatch_Star [of r st])
  then consider "st' = st"
    | mid where "mid \<in> set (rmatch r (enter_rep r st))"
        and "length (m_rest mid) < length (m_rest st)" and "st' \<in> set (rmatch (Star r) mid)"
    by (auto split: if_splits)
  then show ?case
  proof cases
    case 1
    then show ?thesis by simp
  next
    case 2
    from "8.IH"(1) [OF 2(1)] have "m_pos st \<le> m_pos mid"
      by (simp add: enter_rep_def split: if_splits)
    moreover from "8.IH"(2) [OF 2(1) 2(2) 2(3)] have "m_pos mid \<le> m_pos st'" .
    ultimately show ?thesis by simp
  qed
next
  case (9 r st)
  then obtain s0 where s0: "s0 \<in> set (rmatch r st)" and "m_pos st' = m_pos s0"
    by auto
  with "9.IH" [OF s0] show ?case by simp
next
  case (10 st)
  show ?case
  proof (cases "m_cap st")
    case None
    with "10.prems" show ?thesis by simp
  next
    case (Some s)
    with "10.prems" show ?thesis by (simp add: advance_def split: if_splits)
  qed
next
  case (11 r st)
  show ?case
  proof (cases "rmatch r st")
    case Nil
    with "11.prems" show ?thesis by simp
  next
    case (Cons a as)
    with "11.prems" show ?thesis by simp
  qed
next
  case (12 st)
  then show ?case by (simp split: if_splits)
next
  case (13 st)
  then show ?case by (simp split: if_splits)
next
  case (14 st)
  show ?case
  proof (cases "m_rest st")
    case Nil
    with "14.prems" show ?thesis by simp
  next
    case (Cons c cs)
    with "14.prems" show ?thesis by (simp split: if_splits)
  qed
qed

lemma match_at_bounds: "match_at r s i = Some m \<Longrightarrow> r_index m = i \<and> i \<le> r_end m"
proof -
  assume a: "match_at r s i = Some m"
  then obtain st sts where st: "rmatch r \<lparr>m_cap = None, m_pos = i, m_rest = drop i s\<rparr> = st # sts"
    by (auto simp: match_at_def split: list.splits)
  then have "st \<in> set (rmatch r \<lparr>m_cap = None, m_pos = i, m_rest = drop i s\<rparr>)"
    by simp
  from rmatch_pos [OF this] have "i \<le> m_pos st" by simp
  with a st show ?thesis by (auto simp: match_at_def)
qed

lemma exec_from_bounds: "exec_from r s i = Some m \<Longrightarrow> i \<le> r_index m \<and> r_index m \<le> r_end m \<and> r_index m \<le> length s"
proof (induction r s i rule: exec_from.induct)
  case (1 r s i)
  show ?case
  proof (cases "match_at r s i")
    case None
    with "1.prems" have le: "\<not> length s < i" and "exec_from r s (Suc i) = Some m"
      by (auto simp: exec_from.simps [of r s i] split: if_splits)
    with "1.IH" [OF le None] show ?thesis by simp
  next
    case (Some m')
    with "1.prems" have "m' = m" and "i \<le> length s"
      by (auto simp: exec_from.simps [of r s i] split: if_splits)
    with Some match_at_bounds [of r s i m] show ?thesis by simp
  qed
qed

text \<open>
  \<open>s.matchAll(re)\<close> for a regular expression with the flag \<open>g\<close>: the matches from
  left to right, each search starting where the last match ended (one further after an
  empty match).
\<close>

function matchAll_from :: "regex \<Rightarrow> string \<Rightarrow> nat \<Rightarrow> rmatch_result list" where
  "matchAll_from r s lastIndex =
     (case exec_from r s lastIndex of
        None \<Rightarrow> []
      | Some m \<Rightarrow>
          m # matchAll_from r s (if r_end m = r_index m then Suc (r_end m) else r_end m))"
  by pat_completeness auto
termination
proof (relation "measure (\<lambda>(r, s, i). Suc (length s) - i)", goal_cases)
  case 1
  show ?case by simp
next
  case (2 r s lastIndex m)
  from exec_from_bounds [OF 2] show ?case by auto
qed

definition matchAll :: "regex \<Rightarrow> string \<Rightarrow> rmatch_result list" where
  "matchAll r s = matchAll_from r s 0"

text \<open>
  \<open>s.split(re)\<close>: \<open>p\<close> is the start of the piece being collected and \<open>q\<close> the
  position where a separator is tried. A separator that matches at \<open>q\<close> and does not
  end at \<open>p\<close> closes the piece; the capture of group 1 (\<open>undefined\<close> when the group
  took no part) is spliced in after the piece.
\<close>

function split_loop :: "regex \<Rightarrow> string \<Rightarrow> nat \<Rightarrow> nat \<Rightarrow> string option list" where
  "split_loop r s p q =
     (if q < length s then
        (case match_at r s q of
           None \<Rightarrow> split_loop r s p (Suc q)
         | Some z \<Rightarrow>
             (let e = min (r_end z) (length s) in
              if e = p then split_loop r s p (Suc q)
              else Some (slice s p q) # r_group z # split_loop r s e e))
      else [Some (slice s p (length s))])"
  by pat_completeness auto
termination
proof (relation "inv_image (less_than <*lex*> less_than)
    (\<lambda>(r, s, p, q). (length s - q, if p = q then 0 else (1::nat)))", goal_cases)
  case 1
  show ?case by auto
next
  case (2 r s p q)
  then have "length s - Suc q < length s - q" by simp
  then show ?case by simp
next
  case (3 r s p q z e)
  then have "length s - Suc q < length s - q" by simp
  then show ?case by simp
next
  case (4 r s p q z e)
  from match_at_bounds [OF 4(2)] 4(1) 4(3) have le: "q \<le> e"
    by simp
  show ?case
  proof (cases "e = q")
    case True
    with 4(4) show ?thesis by simp
  next
    case False
    with le have "length s - e < length s - q"
      using 4(1) by simp
    then show ?thesis by simp
  qed
qed

definition re_split :: "regex \<Rightarrow> string \<Rightarrow> string option list" where
  "re_split r s =
     (if s = [] then (if match_at r s 0 = None then [Some s] else [])
      else split_loop r s 0 0)"

section \<open>The annotation parser (class Processor)\<close>

subsection \<open>The four grammars\<close>

text \<open>
  \<open>BASE_RE\<close>, \<open>ONLY_RE\<close>, \<open>END_RE\<close> (flag \<open>m\<close>: its \<open>$\<close> also matches before a
  line terminator) and \<open>BLOCK_RE\<close>, each written out as in the source.
\<close>

definition BASE_RE :: regex where
  "BASE_RE =
     seq [Lit CHR ''{'', Opt (Lit CHR '':''), Star (OneOf '' ''),
          Grp (Cat (NoneOf [CHR ''}'', NL, CHR '' '']) (Star (NoneOf [CHR ''}'', NL]))),
          Star (OneOf '' ''), Lit CHR ''}'']"

definition ONLY_RE :: regex where
  "ONLY_RE =
     seq [Bos, Lit CHR ''{'', Opt (Lit CHR '':''), Star (OneOf '' ''),
          Grp (Cat (NoneOf [CHR ''}'', NL, CHR '' '']) (Star (NoneOf [CHR ''}'', NL]))),
          Star (OneOf '' ''), Lit CHR ''}'', Eos]"

definition END_RE :: regex where
  "END_RE =
     seq [Lit CHR ''{'', Opt (Lit CHR '':''), Star (OneOf '' ''),
          Grp (Cat (NoneOf [CHR ''}'', NL, CHR '' '']) (Star (NoneOf [CHR ''}'', NL]))),
          Star (OneOf '' ''), Lit CHR ''}'', Eol]"

definition BLOCK_RE :: regex where
  "BLOCK_RE =
     seq [Lit NL, Star (OneOf '' ''), Lit CHR ''{'', Opt (Lit CHR '':''), Star (OneOf '' ''),
          Grp (Cat (NoneOf [CHR ''}'', NL, CHR '' '']) (Star (NoneOf [CHR ''}'', NL]))),
          Star (OneOf '' ''), Lit CHR ''}'', Star (OneOf '' ''), Eos]"

subsection \<open>getAttrs\<close>

text \<open>
  An attribute list as \<open>Processor.getAttrs\<close> returns it: pairs of a key and a value
  that may be \<open>null\<close> (\<open>None\<close>).
\<close>

type_synonym attrs = "(string \<times> string option) list"

text \<open>
  The separator of the split in \<open>getAttrs\<close>: a white space character followed, up to
  the end of the string, by pairs of equal quote characters only. The quote characters
  of the separator are the single quote, the double quote and the back-tick.
\<close>

definition quoteChars :: string where
  "quoteChars = [SQ, DQ, BQ]"

definition ATTR_SPLIT_RE :: regex where
  "ATTR_SPLIT_RE =
     Cat Space
       (Ahead
          (seq [Star (seq [Star (NoneOf quoteChars), Grp (OneOf quoteChars),
                           Star (NoneOf quoteChars), Backref]),
                Star (NoneOf quoteChars), Eos]))"

text \<open>\<open>allowedKeyChars\<close>, \<open>keySeparator\<close> and \<open>classChar\<close> of \<open>getAttrs\<close>.\<close>

definition allowedKeyChars :: regex where
  "allowedKeyChars =
     NoneOf [CHR 0x09, NL, CHR 0x0C, CHR '' '', CHR ''/'', CHR ''>'', DQ, SQ, CHR ''='']"

definition keySeparator :: char where
  "keySeparator = CHR ''=''"

definition classChar :: char where
  "classChar = CHR ''.''"

text \<open>
  The filter of \<open>getAttrs\<close>: a fragment stays when it is defined, not empty, and
  neither a lone double quote nor a lone single quote.
\<close>

fun keep_fragment :: "string option \<Rightarrow> bool" where
  "keep_fragment None = False"
| "keep_fragment (Some t) = (t \<noteq> [] \<and> t \<noteq> [DQ] \<and> t \<noteq> [SQ])"

text \<open>
  The array \<open>pair.split(keySeparator, 2)\<close> read as a pair \<open>[key, value]\<close>; an element
  the array does not have is \<open>undefined\<close>.
\<close>

fun as_entry :: "string list \<Rightarrow> string \<times> string option" where
  "as_entry [] = ([], None)"
| "as_entry [k] = (k, None)"
| "as_entry (k # v # rest) = (k, Some v)"

text \<open>
  The \<open>for\<close> loop of \<open>getAttrs\<close> over the fragments: a class, a key and a value, or
  a flag (value \<open>null\<close>). \<open>pair.slice(0, -1)\<close>, for a pair without separator, is the
  pair without its last character.
\<close>

fun getAttrs_loop :: "string list \<Rightarrow> attrs" where
  "getAttrs_loop [] = []"
| "getAttrs_loop (pair # trys) =
     (if pair = [] then getAttrs_loop trys
      else if take 1 pair = [classChar] then (''class'', Some (slice_from pair 1)) # getAttrs_loop trys
      else if re_test (Lit keySeparator) pair \<and>
              re_test allowedKeyChars
                (case indexOf pair keySeparator of
                   Some i \<Rightarrow> slice pair 0 i
                 | None \<Rightarrow> butlast pair)
           then as_entry (split_limit keySeparator 2 pair) # getAttrs_loop trys
      else (pair, None) # getAttrs_loop trys)"

text \<open>
  \<open>getAttrs(str)\<close>: the split, the \<open>map\<close> that trims and the \<open>filter\<close>, then the
  loop. The fragments the filter keeps are defined. The result \<open>None\<close> is the
  \<open>return;\<close> of the source (\<open>undefined\<close>), and the argument \<open>None\<close> is
  \<open>undefined\<close>, read as the empty string.
\<close>

definition getAttrs :: "string option \<Rightarrow> attrs option" where
  "getAttrs str =
     (let trys =
            map the
              (filter keep_fragment
                 (map (map_option trim)
                    (re_split ATTR_SPLIT_RE (case str of None \<Rightarrow> [] | Some s \<Rightarrow> s))))
      in if trys = [] then None else Some (getAttrs_loop trys))"

subsection \<open>parseLine\<close>

text \<open>
  \<open>ElementWithAttributes\<close>. The element is written as the place of the target as
  seen from the element being visited (see the tree applier); \<open>parseLine\<close> leaves it
  out.
\<close>

datatype target = TNull | TAncestor nat | TSelf | TChild nat

record ElementWithAttributes =
  ewa_element :: "target option"
  ewa_attributes :: "attrs option"
  ewa_text :: "string option"

definition parseLine :: "string \<Rightarrow> ElementWithAttributes list" where
  "parseLine s =
     map (\<lambda>m. \<lparr>ewa_element = None, ewa_attributes = getAttrs (r_group m), ewa_text = r_group m\<rparr>)
       (matchAll END_RE s)"

section \<open>The tree applier (class Processor)\<close>

subsection \<open>The document tree and the host's operations\<close>

text \<open>
  An element without its children: the tag name, whether it is an \<open>HTMLElement\<close>,
  the class list and the other attributes.
\<close>

record Element =
  tagName :: string
  is_html :: bool
  classList :: "string list"
  el_attributes :: "(string \<times> string) list"

datatype Node =
    TextNode string
  | ElementNode Element "Node list"

definition instanceof_HTMLElement :: "Element \<Rightarrow> bool" where
  "instanceof_HTMLElement e = is_html e"

definition instanceof_HTMLLIElement :: "Element \<Rightarrow> bool" where
  "instanceof_HTMLLIElement e = (is_html e \<and> tagName e = ''LI'')"

definition instanceof_HTMLQuoteElement :: "Element \<Rightarrow> bool" where
  "instanceof_HTMLQuoteElement e = (is_html e \<and> tagName e \<in> set [''BLOCKQUOTE'', ''Q''])"

definition instanceof_HTMLPreElement :: "Element \<Rightarrow> bool" where
  "instanceof_HTMLPreElement e = (is_html e \<and> tagName e \<in> set [''PRE'', ''LISTING'', ''XMP''])"

definition instanceof_HTMLBRElement :: "Element \<Rightarrow> bool" where
  "instanceof_HTMLBRElement e = (is_html e \<and> tagName e = ''BR'')"

definition hasClass :: "Element \<Rightarrow> string \<Rightarrow> bool" where
  "hasClass e c = (c \<in> set (classList e))"

definition toLowerCase :: "string \<Rightarrow> string" where
  "toLowerCase s =
     map (\<lambda>c. let n = (of_char c :: nat) in
               if (65 \<le> n \<and> n \<le> 90) \<or> (192 \<le> n \<and> n \<le> 222 \<and> n \<noteq> 215)
               then char_of (n + 32) else c) s"

text \<open>
  What the host does is a parameter of the model. \<open>setAttr\<close> and \<open>addClasses\<close> either
  return or throw, and leave the element in some state either way; \<open>setAttr\<close> is called
  with \<open>true\<close> or with a string. The getter and the setter of \<open>innerHTML\<close> turn the
  children of an element into markup and markup into children.
\<close>

datatype attr_value = AttrTrue | AttrString string

datatype 'a outcome = Returns 'a | Throws 'a

record host =
  setAttr :: "Element \<Rightarrow> string \<Rightarrow> attr_value \<Rightarrow> Element outcome"
  addClasses :: "Element \<Rightarrow> string list \<Rightarrow> Element outcome"
  get_innerHTML :: "Node list \<Rightarrow> string"
  set_innerHTML :: "string \<Rightarrow> Node list"

subsection \<open>tryToReplace\<close>

text \<open>\<open>value.replace(/("|')/g, "")\<close>\<close>

definition strip_quotes :: "string \<Rightarrow> string" where
  "strip_quotes v = filter (\<lambda>c. c \<noteq> DQ \<and> c \<noteq> SQ) v"

text \<open>
  The \<open>for\<close> loop of \<open>tryToReplace\<close> over the attributes. The result is the element
  after the loop and whether the loop ran to its end (\<open>False\<close>: the \<open>catch\<close> was
  taken). The element \<open>None\<close> is \<open>null\<close>; calling a method on it throws, and so does
  \<open>value.split\<close> on the value \<open>null\<close>, before the host is called.
\<close>

fun apply_attributes :: "host \<Rightarrow> Element option \<Rightarrow> attrs \<Rightarrow> Element option \<times> bool" where
  "apply_attributes h element [] = (element, True)"
| "apply_attributes h element ((key, val) # attributes) =
     (if key = [] then apply_attributes h element attributes
      else
        (let val' = (case val of
                       None \<Rightarrow> None
                     | Some v \<Rightarrow> if v \<noteq> [] then Some (strip_quotes v) else Some v)
         in case element of
              None \<Rightarrow> (None, False)
            | Some e \<Rightarrow>
                (case (if key = ''class'' then
                         (case val' of
                            None \<Rightarrow> Throws e
                          | Some v \<Rightarrow> addClasses h e (split_char CHR '' '' v))
                       else
                         (case val' of
                            None \<Rightarrow> setAttr h e key AttrTrue
                          | Some v \<Rightarrow>
                              if v = [] then setAttr h e key AttrTrue
                              else setAttr h e key (AttrString v)))
                 of
                   Returns e' \<Rightarrow> apply_attributes h (Some e') attributes
                 | Throws e' \<Rightarrow> (Some e', False))))"

text \<open>
  \<open>tryToReplace(element, content, attributes, original)\<close>: the element after the call
  and the string returned.
\<close>

definition tryToReplace ::
  "host \<Rightarrow> Element option \<Rightarrow> string \<Rightarrow> attrs option \<Rightarrow> string \<Rightarrow> Element option \<times> string" where
  "tryToReplace h element content attributes original =
     (case attributes of
        None \<Rightarrow> (element, content)
      | Some [] \<Rightarrow> (element, content)
      | Some (a # as) \<Rightarrow>
          (case apply_attributes h element (a # as) of
             (element', False) \<Rightarrow> (element', content)
           | (element', True) \<Rightarrow> (element', remove_first original content)))"

subsection \<open>recurseAndParseElements\<close>

text \<open>
  The part of the document the walk can reach from the element it visits: the
  ancestors of the element (the parent first), the element, and its child nodes.
\<close>

record world =
  w_anc :: "Element list"
  w_el :: Element
  w_children :: "Node list"

text \<open>\<open>getTopLevelText\<close>: the data of the text nodes among the children, joined.\<close>

fun getTopLevelText :: "Node list \<Rightarrow> string" where
  "getTopLevelText [] = []"
| "getTopLevelText (TextNode d # nodes) = d @ getTopLevelText nodes"
| "getTopLevelText (ElementNode e kids # nodes) = getTopLevelText nodes"

text \<open>The element at a place, the element at a place replaced, and \<open>parentElement\<close>.\<close>

fun target_get :: "world \<Rightarrow> target \<Rightarrow> Element option" where
  "target_get w TNull = None"
| "target_get w (TAncestor k) = (if k < length (w_anc w) then Some (w_anc w ! k) else None)"
| "target_get w TSelf = Some (w_el w)"
| "target_get w (TChild i) =
     (if i < length (w_children w) then
        (case w_children w ! i of
           TextNode d \<Rightarrow> None
         | ElementNode e kids \<Rightarrow> Some e)
      else None)"

fun target_put :: "world \<Rightarrow> target \<Rightarrow> Element option \<Rightarrow> world" where
  "target_put w t None = w"
| "target_put w TNull (Some e) = w"
| "target_put w (TAncestor k) (Some e) = w\<lparr>w_anc := (w_anc w)[k := e]\<rparr>"
| "target_put w TSelf (Some e) = w\<lparr>w_el := e\<rparr>"
| "target_put w (TChild i) (Some e) =
     (if i < length (w_children w) then
        (case w_children w ! i of
           TextNode d \<Rightarrow> w
         | ElementNode e0 kids \<Rightarrow> w\<lparr>w_children := (w_children w)[i := ElementNode e kids]\<rparr>)
      else w)"

fun parentElement :: "world \<Rightarrow> target \<Rightarrow> target" where
  "parentElement w TNull = TNull"
| "parentElement w (TChild i) = TSelf"
| "parentElement w TSelf = (if w_anc w = [] then TNull else TAncestor 0)"
| "parentElement w (TAncestor k) = (if Suc k < length (w_anc w) then TAncestor (Suc k) else TNull)"

text \<open>The index of the first text node among the children.\<close>

fun first_text :: "Node list \<Rightarrow> nat option" where
  "first_text [] = None"
| "first_text (TextNode d # nodes) = Some 0"
| "first_text (ElementNode e kids # nodes) = map_option Suc (first_text nodes)"

text \<open>
  The target of a block annotation: the parent when the element is a list item, when
  its parent is a quote element, or when it has the class \<open>callout\<close>.
\<close>

definition block_target :: "world \<Rightarrow> target" where
  "block_target w =
     (if instanceof_HTMLLIElement (w_el w) \<or>
         (case target_get w (parentElement w TSelf) of
            None \<Rightarrow> False
          | Some p \<Rightarrow> instanceof_HTMLQuoteElement p) \<or>
         hasClass (w_el w) ''callout''
      then parentElement w TSelf
      else TSelf)"

text \<open>
  The target of an inline annotation: the element just before the first text node, or
  the element itself; then the parent of that when it has the class
  \<open>collapse-indicator\<close>, and the parent of that when it is a \<open>br\<close>.
\<close>

definition step_up :: "world \<Rightarrow> (Element \<Rightarrow> bool) \<Rightarrow> target \<Rightarrow> target" where
  "step_up w p sibling =
     (case target_get w sibling of
        None \<Rightarrow> sibling
      | Some e \<Rightarrow> if p e then parentElement w sibling else sibling)"

definition inline_target :: "world \<Rightarrow> nat \<Rightarrow> target" where
  "inline_target w ti =
     (let sibling = (if 0 < ti then TChild (ti - 1) else TSelf);
          sibling = step_up w (\<lambda>e. hasClass e ''collapse-indicator'') sibling;
          sibling = step_up w instanceof_HTMLBRElement sibling
      in sibling)"

text \<open>
  The two branches, given the match of the own text against their grammar. Each builds
  \<open>toAdd\<close>, calls \<open>tryToReplace\<close> and assigns the string it returns: to
  \<open>el.innerHTML\<close> in the block branch, to the \<open>textContent\<close> of the first text node in
  the inline branch. An own text that matches is not empty, so there is a first text
  node (lemma \<open>inline_match_has_text_node\<close>).
\<close>

definition block_branch :: "host \<Rightarrow> world \<Rightarrow> rmatch_result \<Rightarrow> ElementWithAttributes \<times> world" where
  "block_branch h w m =
     (let element = block_target w;
          original = r_text m;
          attribute_string = r_group m;
          toAdd = \<lparr>ewa_element = Some element, ewa_attributes = getAttrs attribute_string,
                   ewa_text = attribute_string\<rparr>;
          (element', content) =
            tryToReplace h (target_get w element) (get_innerHTML h (w_children w))
              (ewa_attributes toAdd) original
      in (toAdd, (target_put w element element')\<lparr>w_children := set_innerHTML h content\<rparr>))"

definition inline_branch :: "host \<Rightarrow> world \<Rightarrow> rmatch_result \<Rightarrow> ElementWithAttributes \<times> world" where
  "inline_branch h w m =
     (case first_text (w_children w) of
        None \<Rightarrow> (\<lparr>ewa_element = None, ewa_attributes = None, ewa_text = None\<rparr>, w)
      | Some ti \<Rightarrow>
          (let sibling = inline_target w ti;
               original = r_text m;
               attribute_string = r_group m;
               toAdd = \<lparr>ewa_element = Some sibling, ewa_attributes = getAttrs attribute_string,
                        ewa_text = attribute_string\<rparr>;
               textContent = (case w_children w ! ti of TextNode d \<Rightarrow> d | ElementNode e kids \<Rightarrow> []);
               (element', content) =
                 tryToReplace h (target_get w sibling) textContent (ewa_attributes toAdd) original;
               w' = target_put w sibling element'
           in (toAdd, w'\<lparr>w_children := (w_children w')[ti := TextNode content]\<rparr>)))"

text \<open>
  The loop over \<open>el.children\<close>: a child that is not an \<open>HTMLElement\<close>, a \<open>pre\<close>
  element and an element with the tag name \<open>code\<close> are passed over; the walk \<open>rec\<close>
  runs on every other child, which sees the element as its parent. The walk hands back
  the ancestors it was given, changed in place (lemma \<open>walk_keeps_ancestors\<close>): the
  first of them is the element, the others are its own ancestors.
\<close>

definition skipped_child :: "Element \<Rightarrow> bool" where
  "skipped_child child =
     (if \<not> instanceof_HTMLElement child then True
      else instanceof_HTMLPreElement child \<or> toLowerCase (tagName child) = ''code'')"

fun children_loop ::
  "(world \<Rightarrow> (ElementWithAttributes list \<times> world) option) \<Rightarrow> nat list
     \<Rightarrow> ElementWithAttributes list \<times> world \<Rightarrow> (ElementWithAttributes list \<times> world) option" where
  "children_loop rec [] acc = Some acc"
| "children_loop rec (i # is) (elements, w) =
     (case w_children w ! i of
        TextNode d \<Rightarrow> children_loop rec is (elements, w)
      | ElementNode child kids \<Rightarrow>
          if skipped_child child then children_loop rec is (elements, w)
          else
            (case rec \<lparr>w_anc = w_el w # w_anc w, w_el = child, w_children = kids\<rparr> of
               None \<Rightarrow> None
             | Some (found, w') \<Rightarrow>
                 children_loop rec is
                   (elements @ found,
                    \<lparr>w_anc = tl (w_anc w'), w_el = hd (w_anc w'),
                       w_children = (w_children w)[i := ElementNode (w_el w') (w_children w')]\<rparr>)))"

text \<open>
  \<open>recurseAndParseElements(el)\<close>. The walk calls itself on a list item after a block
  annotation, whatever \<open>tryToReplace\<close> returned, so it need not return: the first
  argument bounds the depth of the calls, and \<open>None\<close> says the bound was reached.
\<close>

fun recurseAndParseElements ::
  "host \<Rightarrow> nat \<Rightarrow> world \<Rightarrow> (ElementWithAttributes list \<times> world) option" where
  "recurseAndParseElements h 0 w = None"
| "recurseAndParseElements h (Suc n) w =
     (let text = getTopLevelText (w_children w) in
      case re_match BLOCK_RE text of
        Some m \<Rightarrow>
          (let (toAdd, w1) = block_branch h w m in
           if instanceof_HTMLLIElement (w_el w) then
             (case recurseAndParseElements h n w1 of
                None \<Rightarrow> None
              | Some (found, w2) \<Rightarrow>
                  children_loop (recurseAndParseElements h n) [0 ..< length (w_children w2)]
                    (toAdd # found, w2))
           else
             children_loop (recurseAndParseElements h n) [0 ..< length (w_children w1)]
               ([toAdd], w1))
      | None \<Rightarrow>
          (case re_match BASE_RE text of
             Some m \<Rightarrow>
               (let (toAdd, w1) = inline_branch h w m in
                children_loop (recurseAndParseElements h n) [0 ..< length (w_children w1)]
                  ([toAdd], w1))
           | None \<Rightarrow>
               children_loop (recurseAndParseElements h n) [0 ..< length (w_children w)] ([], w)))"

section \<open>A host: the document tree of a browser\<close>

text \<open>
  The walk is checked on concrete trees against this host. It follows the documented
  behaviour of the tree: \<open>setAttr(name, value)\<close> sets the attribute to the string of
  the value and throws on a name that is not a valid attribute name; \<open>addClasses\<close> adds
  the tokens one by one and throws on an empty token or a token with white space;
  \<open>innerHTML\<close> writes the children as markup and reads markup of that form.
\<close>

definition is_name_start :: "char \<Rightarrow> bool" where
  "is_name_start c =
     (let n = (of_char c :: nat) in
      (65 \<le> n \<and> n \<le> 90) \<or> (97 \<le> n \<and> n \<le> 122) \<or> n = 95 \<or> n = 58 \<or>
      (192 \<le> n \<and> n \<le> 214) \<or> (216 \<le> n \<and> n \<le> 246) \<or> 248 \<le> n)"

definition is_name_char :: "char \<Rightarrow> bool" where
  "is_name_char c =
     (let n = (of_char c :: nat) in
      is_name_start c \<or> (48 \<le> n \<and> n \<le> 57) \<or> n = 45 \<or> n = 46 \<or> n = 183)"

fun valid_attribute_name :: "string \<Rightarrow> bool" where
  "valid_attribute_name [] = False"
| "valid_attribute_name (c # cs) = (is_name_start c \<and> list_all is_name_char cs)"

definition is_ascii_space :: "char \<Rightarrow> bool" where
  "is_ascii_space c = (c \<in> set [CHR 0x09, CHR 0x0A, CHR 0x0C, CHR 0x0D, CHR 0x20])"

definition ascii_lowercase :: "string \<Rightarrow> string" where
  "ascii_lowercase s =
     map (\<lambda>c. let n = (of_char c :: nat) in if 65 \<le> n \<and> n \<le> 90 then char_of (n + 32) else c) s"

definition ascii_uppercase :: "string \<Rightarrow> string" where
  "ascii_uppercase s =
     map (\<lambda>c. let n = (of_char c :: nat) in if 97 \<le> n \<and> n \<le> 122 then char_of (n - 32) else c) s"

text \<open>The tokens of a \<open>class\<close> attribute, each once, in the order they first occur.\<close>

fun words :: "string \<Rightarrow> string \<Rightarrow> string list" where
  "words cur [] = (if cur = [] then [] else [cur])"
| "words cur (c # cs) =
     (if is_ascii_space c then (if cur = [] then words [] cs else cur # words [] cs)
      else words (cur @ [c]) cs)"

definition class_tokens :: "string \<Rightarrow> string list" where
  "class_tokens s = rev (remdups (rev (words [] s)))"

definition dom_setAttr :: "Element \<Rightarrow> string \<Rightarrow> attr_value \<Rightarrow> Element outcome" where
  "dom_setAttr e name v =
     (if \<not> valid_attribute_name name then Throws e
      else
        (let n = ascii_lowercase name;
             s = (case v of AttrTrue \<Rightarrow> ''true'' | AttrString x \<Rightarrow> x)
         in if n = ''class'' then Returns (e\<lparr>classList := class_tokens s\<rparr>)
            else Returns (e\<lparr>el_attributes := AList.update n s (el_attributes e)\<rparr>)))"

fun dom_addClasses :: "Element \<Rightarrow> string list \<Rightarrow> Element outcome" where
  "dom_addClasses e [] = Returns e"
| "dom_addClasses e (c # cs) =
     (if c = [] \<or> list_ex is_ascii_space c then Throws e
      else dom_addClasses
             (e\<lparr>classList := (if c \<in> set (classList e) then classList e else classList e @ [c])\<rparr>)
             cs)"

text \<open>Writing the children as markup.\<close>

definition escape_text :: "string \<Rightarrow> string" where
  "escape_text s =
     concat (map (\<lambda>c. if c = CHR ''&'' then ''&amp;'' else if c = CHR 0xA0 then ''&nbsp;''
                       else if c = CHR ''<'' then ''&lt;'' else if c = CHR ''>'' then ''&gt;''
                       else [c]) s)"

definition escape_attr :: "string \<Rightarrow> string" where
  "escape_attr s =
     concat (map (\<lambda>c. if c = CHR ''&'' then ''&amp;'' else if c = CHR 0xA0 then ''&nbsp;''
                       else if c = DQ then ''&quot;'' else [c]) s)"

definition void_elements :: "string list" where
  "void_elements =
     [''area'', ''base'', ''br'', ''col'', ''embed'', ''hr'', ''img'', ''input'', ''link'',
      ''meta'', ''param'', ''source'', ''track'', ''wbr'']"

definition write_attr :: "string \<times> string \<Rightarrow> string" where
  "write_attr kv = '' '' @ fst kv @ ''='' @ [DQ] @ escape_attr (snd kv) @ [DQ]"

fun unwords :: "string list \<Rightarrow> string" where
  "unwords [] = []"
| "unwords [w] = w"
| "unwords (w # ws) = w @ '' '' @ unwords ws"

definition write_attrs :: "Element \<Rightarrow> string" where
  "write_attrs e =
     (if classList e = [] then [] else write_attr (''class'', unwords (classList e))) @
     concat (map write_attr (el_attributes e))"

fun write_node :: "Node \<Rightarrow> string" where
  "write_node (TextNode d) = escape_text d"
| "write_node (ElementNode e kids) =
     (let name = ascii_lowercase (tagName e) in
      ''<'' @ name @ write_attrs e @ ''>'' @
      (if name \<in> set void_elements then []
       else concat (map write_node kids) @ ''</'' @ name @ ''>''))"

definition dom_get_innerHTML :: "Node list \<Rightarrow> string" where
  "dom_get_innerHTML nodes = concat (map write_node nodes)"

text \<open>Reading markup of that form.\<close>

fun unescape :: "string \<Rightarrow> string" where
  "unescape [] = []"
| "unescape (c # cs) =
     (if c = CHR ''&'' \<and> is_prefix ''amp;'' cs then CHR ''&'' # unescape (drop 4 cs)
      else if c = CHR ''&'' \<and> is_prefix ''lt;'' cs then CHR ''<'' # unescape (drop 3 cs)
      else if c = CHR ''&'' \<and> is_prefix ''gt;'' cs then CHR ''>'' # unescape (drop 3 cs)
      else if c = CHR ''&'' \<and> is_prefix ''nbsp;'' cs then CHR 0xA0 # unescape (drop 5 cs)
      else if c = CHR ''&'' \<and> is_prefix ''quot;'' cs then DQ # unescape (drop 5 cs)
      else c # unescape cs)"

definition is_tag_char :: "char \<Rightarrow> bool" where
  "is_tag_char c = (\<not> is_ascii_space c \<and> c \<noteq> CHR ''>'' \<and> c \<noteq> CHR ''/'' \<and> c \<noteq> CHR ''='')"

fun read_attrs :: "nat \<Rightarrow> string \<Rightarrow> (string \<times> string) list \<times> string" where
  "read_attrs 0 s = ([], s)"
| "read_attrs (Suc n) s =
     (case dropWhile is_ascii_space s of
        [] \<Rightarrow> ([], [])
      | c # cs \<Rightarrow>
          if c = CHR ''>'' then ([], cs)
          else if \<not> is_tag_char c then read_attrs n cs
          else
            (let name = takeWhile is_tag_char (c # cs);
                 after = dropWhile is_tag_char (c # cs)
             in if is_prefix (''='' @ [DQ]) after then
                  (let v = takeWhile (\<lambda>x. x \<noteq> DQ) (drop 2 after);
                       (found, s') = read_attrs n (drop 1 (dropWhile (\<lambda>x. x \<noteq> DQ) (drop 2 after)))
                   in ((name, unescape v) # found, s'))
                else
                  (let (found, s') = read_attrs n after in ((name, []) # found, s'))))"

definition read_element :: "string \<Rightarrow> (string \<times> string) list \<Rightarrow> Element" where
  "read_element name found =
     \<lparr>tagName = ascii_uppercase name, is_html = True,
        classList = (case map_of found ''class'' of None \<Rightarrow> [] | Some v \<Rightarrow> class_tokens v),
        el_attributes = filter (\<lambda>kv. fst kv \<noteq> ''class'') found\<rparr>"

fun read_nodes :: "nat \<Rightarrow> string \<Rightarrow> Node list \<times> string" where
  "read_nodes 0 s = ([], s)"
| "read_nodes (Suc n) [] = ([], [])"
| "read_nodes (Suc n) (c # cs) =
     (if c = CHR ''<'' then
        (if is_prefix ''/'' cs then ([], c # cs)
         else
           (let name = ascii_lowercase (takeWhile is_tag_char cs);
                (found, s0) = read_attrs (Suc (length cs)) (dropWhile is_tag_char cs);
                e = read_element name found
            in if name \<in> set void_elements then
                 (let (siblings, s1) = read_nodes n s0 in (ElementNode e [] # siblings, s1))
               else
                 (let (kids, s1) = read_nodes n s0;
                      s2 = drop 1 (dropWhile (\<lambda>x. x \<noteq> CHR ''>'') s1);
                      (siblings, s3) = read_nodes n s2
                  in (ElementNode e kids # siblings, s3))))
      else
        (let d = takeWhile (\<lambda>x. x \<noteq> CHR ''<'') (c # cs);
             (siblings, s1) = read_nodes n (dropWhile (\<lambda>x. x \<noteq> CHR ''<'') (c # cs))
         in (TextNode (unescape d) # siblings, s1)))"

definition dom_set_innerHTML :: "string \<Rightarrow> Node list" where
  "dom_set_innerHTML s = fst (read_nodes (Suc (length s)) s)"

definition dom :: host where
  "dom = \<lparr>setAttr = dom_setAttr, addClasses = dom_addClasses,
           get_innerHTML = dom_get_innerHTML, set_innerHTML = dom_set_innerHTML\<rparr>"

section \<open>Live decorations (main.ts)\<close>

subsection \<open>Selection ranges and the overlap predicate\<close>

text \<open>
  A \<open>SelectionRange\<close> of the editor, reduced to the two fields the plugin reads
  (\<open>from\<close> and \<open>to\<close>). Positions are document offsets; the arithmetic of the
  plugin can leave the non-negative numbers (\<open>from + match.index - 1\<close>), so they are
  integers.
\<close>

record SelectionRange =
  sel_from :: int
  sel_to :: int

text \<open>
  \<open>rangesInclude(ranges, from, to)\<close>: the \<open>for\<close> loop with its three early
  returns, in the order of the source.
\<close>

fun rangesInclude :: "SelectionRange list \<Rightarrow> int \<Rightarrow> int \<Rightarrow> bool" where
  "rangesInclude [] from' to' = False"
| "rangesInclude (r # ranges) from' to' =
     (let rFrom = sel_from r; rTo = sel_to r in
      if rFrom \<ge> from' \<and> rFrom \<le> to' then True
      else if rTo \<ge> from' \<and> rTo \<le> to' then True
      else if rFrom < from' \<and> rTo > to' then True
      else rangesInclude ranges from' to')"

subsection \<open>Decorations, ranges and the decoration cache\<close>

text \<open>The exceptions the model tells apart.\<close>

datatype error = TypeError | SyntaxError

text \<open>
  A \<open>Decoration\<close> is an object: \<open>deco_id\<close> is its identity (the allocation that
  made it) and \<open>deco_spec\<close> the spec it was made from. A mark decoration carries the
  attributes, a replace decoration the flag \<open>inclusive\<close> and the span \<open>loc\<close>.
\<close>

datatype DecoSpec =
    MarkSpec attrs
  | ReplaceSpec bool "int \<times> int"

record Decoration =
  deco_id :: nat
  deco_spec :: DecoSpec

text \<open>\<open>deco.range(from, to)\<close>\<close>

record DecoRange =
  rng_from :: int
  rng_to :: int
  rng_value :: Decoration

type_synonym DecorationSet = "DecoRange list"

text \<open>
  \<open>Decoration.set(ranges, true)\<close> of the editor library: the ranges sorted by their
  start, ranges with the same start in the order they were pushed.
\<close>

definition Decoration_set :: "DecoRange list \<Rightarrow> DecorationSet" where
  "Decoration_set ranges = sort_key rng_from ranges"

text \<open>
  \<open>Object.fromEntries\<close>: a later entry with the same key overwrites the value and
  keeps the key's place.
\<close>

definition fromEntries :: "attrs \<Rightarrow> attrs" where
  "fromEntries entries = foldl (\<lambda>obj (k, v). AList.update k v obj) [] entries"

text \<open>The two variants of \<open>TokenSpec\<close>, with the fields in the order of the type.\<close>

datatype TokenSpec =
    MarkToken int int string "attrs option"
  | ReplaceToken int int "int \<times> int" string int




text \<open>
  The state of a \<open>StatefulDecorationSet\<close>: the cache \<open>decoCache\<close>, a dictionary
  from \<open>token.value\<close> to the decoration made for it, and the number of decoration
  objects allocated so far, which gives each new object its identity.
\<close>

record ManagerState =
  decoCache :: "string \<rightharpoonup> Decoration"
  allocated :: nat

definition mk_range :: "Decoration \<Rightarrow> int \<Rightarrow> int \<Rightarrow> DecoRange" where
  "mk_range deco f t = \<lparr>rng_from = f, rng_to = t, rng_value = deco\<rparr>"


text \<open>
  The loop of \<open>compute\<close> over the tokens, with the two arrays \<open>mark\<close> and
  \<open>replace\<close> it pushes to. \<open>Object.fromEntries(undefined)\<close> throws a TypeError
  (the attributes of a mark token are \<open>undefined\<close> when \<open>getAttrs\<close> returned
  nothing).
\<close>

fun compute_loop ::
  "TokenSpec list \<Rightarrow> DecoRange list \<Rightarrow> DecoRange list \<Rightarrow> ManagerState
     \<Rightarrow> (error + (DecoRange list \<times> DecoRange list)) \<times> ManagerState" where
  "compute_loop [] mark replace s = (Inr (mark, replace), s)"
| "compute_loop (MarkToken f t v a # tokens) mark replace s =
     (case decoCache s v of
        None \<Rightarrow>
          (case a of
             None \<Rightarrow> (Inl TypeError, s)
           | Some entries \<Rightarrow>
               (let deco = \<lparr>deco_id = allocated s, deco_spec = MarkSpec (fromEntries entries)\<rparr>;
                    s' = s\<lparr>decoCache := (decoCache s)(v \<mapsto> deco), allocated := Suc (allocated s)\<rparr>
                in compute_loop tokens (mark @ [mk_range deco f t]) replace s'))
      | Some deco \<Rightarrow> compute_loop tokens (mark @ [mk_range deco f t]) replace s)"
| "compute_loop (ReplaceToken f t l v i # tokens) mark replace s =
     (case decoCache s v of
        None \<Rightarrow>
          (let deco = \<lparr>deco_id = allocated s, deco_spec = ReplaceSpec True l\<rparr>;
               s' = s\<lparr>decoCache := (decoCache s)(v \<mapsto> deco), allocated := Suc (allocated s)\<rparr>
           in compute_loop tokens mark (replace @ [mk_range deco f t]) s')
      | Some deco \<Rightarrow> compute_loop tokens mark (replace @ [mk_range deco f t]) s)"

text \<open>\<open>compute(tokens)\<close>: the loop, then the two sorted sets.\<close>

definition compute ::
  "TokenSpec list \<Rightarrow> ManagerState
     \<Rightarrow> (error + (DecorationSet \<times> DecorationSet)) \<times> ManagerState" where
  "compute tokens s =
     (case compute_loop tokens [] [] s of
        (Inl e, s') \<Rightarrow> (Inl e, s')
      | (Inr (mark, replace), s') \<Rightarrow> (Inr (Decoration_set mark, Decoration_set replace), s'))"

subsection \<open>The state field of the decorations\<close>

text \<open>
  The effects of a transaction: the two the plugin defines (\<open>update\<close> and
  \<open>replace\<close>, each with a decoration set as its value) and any other effect.
\<close>

datatype StateEffect =
    UpdateEffect DecorationSet
  | ReplaceEffect DecorationSet
  | OtherEffect

text \<open>
  A transaction, reduced to what the field reads: the change set, seen through what
  \<open>deco.map(tr.changes)\<close> does to a decoration set, the effects, and the ranges of
  the new selection.
\<close>

record Transaction =
  tr_changes :: "DecorationSet \<Rightarrow> DecorationSet"
  tr_effects :: "StateEffect list"
  tr_newSelection :: "SelectionRange list"

text \<open>\<open>decoration.spec.loc\<close>: \<open>undefined\<close> on a mark decoration.\<close>

fun spec_loc :: "Decoration \<Rightarrow> (int \<times> int) option" where
  "spec_loc d = (case deco_spec d of MarkSpec a \<Rightarrow> None | ReplaceSpec i l \<Rightarrow> Some l)"

text \<open>
  \<open>effect.value.update({filter})\<close> with the filter of the field: a range stays when
  \<open>rangesInclude\<close> is false on the decoration's \<open>loc\<close>. Reading \<open>loc.from\<close> of a
  decoration without \<open>loc\<close> throws.
\<close>

fun filter_decos :: "SelectionRange list \<Rightarrow> DecorationSet \<Rightarrow> error + DecorationSet" where
  "filter_decos sel [] = Inr []"
| "filter_decos sel (r # rs) =
     (case spec_loc (rng_value r) of
        None \<Rightarrow> Inl TypeError
      | Some (lf, lt) \<Rightarrow>
          (case filter_decos sel rs of
             Inl e \<Rightarrow> Inl e
           | Inr rs' \<Rightarrow> Inr (if \<not> rangesInclude sel lf lt then r # rs' else rs')))"

text \<open>
  \<open>updateDecos(tokens)\<close>: the effects it dispatches. The two sets \<open>compute\<close>
  returns are objects, so the test \<open>mark || replace || ...\<close> holds whenever
  \<open>compute\<close> has returned, and the transaction carries the update effect and then the
  replace effect.
\<close>

definition updateDecos ::
  "TokenSpec list \<Rightarrow> ManagerState \<Rightarrow> (error + StateEffect list) \<times> ManagerState" where
  "updateDecos tokens s =
     (case compute tokens s of
        (Inl e, s') \<Rightarrow> (Inl e, s')
      | (Inr (mark, replace), s') \<Rightarrow> (Inr [UpdateEffect mark, ReplaceEffect replace], s'))"

text \<open>The reducer of \<open>tr.effects.reduce\<close>, effect by effect.\<close>

fun reduce_effects :: "Transaction \<Rightarrow> StateEffect list \<Rightarrow> DecorationSet \<Rightarrow> error + DecorationSet" where
  "reduce_effects tr [] deco = Inr deco"
| "reduce_effects tr (UpdateEffect v # effects) deco = reduce_effects tr effects v"
| "reduce_effects tr (ReplaceEffect v # effects) deco =
     (case filter_decos (tr_newSelection tr) v of
        Inl e \<Rightarrow> Inl e
      | Inr d \<Rightarrow> reduce_effects tr effects d)"
| "reduce_effects tr (OtherEffect # effects) deco = reduce_effects tr effects deco"

text \<open>\<open>update(deco, tr)\<close> of the state field.\<close>

definition field_update :: "DecorationSet \<Rightarrow> Transaction \<Rightarrow> error + DecorationSet" where
  "field_update deco tr = reduce_effects tr (tr_effects tr) (tr_changes tr deco)"

text \<open>The anchor of a range does not meet the selection.\<close>

definition anchor_clear :: "SelectionRange list \<Rightarrow> DecoRange \<Rightarrow> bool" where
  "anchor_clear sel r =
     (case spec_loc (rng_value r) of
        None \<Rightarrow> False
      | Some (lf, lt) \<Rightarrow> \<not> rangesInclude sel lf lt)"

subsection \<open>The scan of the visible syntax nodes (build)\<close>

text \<open>
  A node of the syntax tree as \<open>tree.iterate\<close> hands it to \<open>enter\<close>: the value of its
  \<open>tokenClassNodeProp\<close> (\<open>None\<close>: the node has none) and its span.
\<close>

record SyntaxNode =
  node_props :: "string option"
  node_from :: int
  node_to :: int

text \<open>
  \<open>original.match(new RegExp(...))\<close> builds a regular expression from the text of the
  annotation. What the engine makes of that source is a parameter of the model: the
  source does not compile, there is no match, or there is a match with its index and
  its text.
\<close>

datatype dyn_match = DynSyntaxError | DynNoMatch | DynMatch nat string

definition sliceString :: "string \<Rightarrow> int \<Rightarrow> int \<Rightarrow> string" where
  "sliceString doc f t = slice doc (nat f) (nat t)"

text \<open>
  The loop of \<open>enter\<close> over the parsed items: a mark token over the node and a replace
  token over the annotation. \<open>match.index\<close> of the result \<open>null\<close> throws.
\<close>

fun emit ::
  "(string \<Rightarrow> string \<Rightarrow> dyn_match) \<Rightarrow> string \<Rightarrow> int \<Rightarrow> int \<Rightarrow> ElementWithAttributes list
     \<Rightarrow> error + TokenSpec list" where
  "emit dyn original f t [] = Inr []"
| "emit dyn original f t (item # parsed) =
     (let attributes = ewa_attributes item;
          text = (case ewa_text item of None \<Rightarrow> ''undefined'' | Some g \<Rightarrow> g)
      in case dyn text original of
           DynSyntaxError \<Rightarrow> Inl SyntaxError
         | DynNoMatch \<Rightarrow> Inl TypeError
         | DynMatch index m0 \<Rightarrow>
             (case emit dyn original f t parsed of
                Inl e \<Rightarrow> Inl e
              | Inr tokens \<Rightarrow>
                  Inr (MarkToken f t text attributes #
                       ReplaceToken (f + int index - 1) (f + int index + int (length m0)) (f, t) m0
                         (int index) #
                       tokens)))"

text \<open>
  \<open>enter(type, from, to)\<close>: the tokens it pushes to \<open>targetElements\<close>, or the exception
  it throws.
\<close>

definition enter ::
  "(string \<Rightarrow> string \<Rightarrow> dyn_match) \<Rightarrow> string \<Rightarrow> SyntaxNode \<Rightarrow> error + TokenSpec list" where
  "enter dyn doc nd =
     (case node_props nd of
        None \<Rightarrow> Inr []
      | Some tokenProps \<Rightarrow>
          if tokenProps = [] then Inr []
          else
            (let props = split_char CHR '' '' tokenProps in
             if props = [] then Inr []
             else if ''hmd-codeblock'' \<in> set props then Inr []
             else
               (let original = sliceString doc (node_from nd) (node_to nd) in
                if \<not> re_test END_RE original then Inr []
                else emit dyn original (node_from nd) (node_to nd) (parseLine original))))"

text \<open>
  \<open>build(view)\<close>: \<open>enter\<close> on the nodes of every visible range, in order; the result
  is the list handed to \<open>updateDecos\<close>.
\<close>

fun build_nodes ::
  "(string \<Rightarrow> string \<Rightarrow> dyn_match) \<Rightarrow> string \<Rightarrow> SyntaxNode list \<Rightarrow> error + TokenSpec list" where
  "build_nodes dyn doc [] = Inr []"
| "build_nodes dyn doc (nd # nodes) =
     (case enter dyn doc nd of
        Inl e \<Rightarrow> Inl e
      | Inr tokens \<Rightarrow>
          (case build_nodes dyn doc nodes of
             Inl e \<Rightarrow> Inl e
           | Inr others \<Rightarrow> Inr (tokens @ others)))"

definition build ::
  "(string \<Rightarrow> string \<Rightarrow> dyn_match) \<Rightarrow> string \<Rightarrow> SyntaxNode list list \<Rightarrow> error + TokenSpec list" where
  "build dyn doc visibleRanges = build_nodes dyn doc (concat visibleRanges)"

text \<open>
  The engine on the source that \<open>enter\<close> builds around the text of an annotation: an
  opening brace, an optional white space, the text, an optional letter \<open>s\<close> (the escape
  written before it sits in a template literal and is gone when the engine reads the
  source) and a closing brace. It is given for a text made of letters, digits, hyphens
  and dots: a dot of the source matches any character but a line terminator, every other
  character itself. \<open>String.prototype.match\<close> without the flag \<open>g\<close> gives the first
  match.
\<close>

definition source_atom :: "char \<Rightarrow> regex" where
  "source_atom c = (if c = CHR ''.'' then NoneOf [CHR 0x0A, CHR 0x0D] else Lit c)"

definition dyn_plain :: "string \<Rightarrow> string \<Rightarrow> dyn_match" where
  "dyn_plain text original =
     (case re_match
             (seq ([Lit CHR ''{'', Opt Space] @ map source_atom text @ [Opt (Lit CHR ''s''), Lit CHR ''}'']))
             original of
        None \<Rightarrow> DynNoMatch
      | Some m \<Rightarrow> DynMatch (r_index m) (r_text m))"

section \<open>Stable tags, and the trees of the examples\<close>

text \<open>
  A host keeps the kind of an element when its two operations leave the tag name and
  the interface of the element alone, whether they return or throw.
\<close>

fun outcome_of :: "'a outcome \<Rightarrow> 'a" where
  "outcome_of (Returns x) = x"
| "outcome_of (Throws x) = x"

definition same_kind :: "Element \<Rightarrow> Element \<Rightarrow> bool" where
  "same_kind e e' = (tagName e' = tagName e \<and> is_html e' = is_html e)"

definition keeps_kind :: "host \<Rightarrow> bool" where
  "keeps_kind h =
     ((\<forall>e k v. same_kind e (outcome_of (setAttr h e k v))) \<and>
      (\<forall>e cs. same_kind e (outcome_of (addClasses h e cs))))"

text \<open>An element with a tag name and nothing else.\<close>

definition new_element :: "string \<Rightarrow> Element" where
  "new_element t = \<lparr>tagName = t, is_html = True, classList = [], el_attributes = []\<rparr>"

text \<open>
  A list item of a list whose block annotation names an attribute the host rejects
  (\<open>=x\<close> is not an attribute name).
\<close>

definition li_rejected :: world where
  "li_rejected =
     \<lparr>w_anc = [new_element ''UL''], w_el = new_element ''LI'',
        w_children = [TextNode (''Item'' @ [NL] @ ''{: =x}'')]\<rparr>"

text \<open>The same annotation at the end of a paragraph that has a child element.\<close>

definition p_rejected :: world where
  "p_rejected =
     \<lparr>w_anc = [new_element ''DIV''], w_el = new_element ''P'',
        w_children = [TextNode ''Text {=x} '', ElementNode (new_element ''EM'') [TextNode ''more {.y}'']]\<rparr>"

text \<open>A list item with an inline annotation and a block annotation.\<close>

definition li_inline :: world where
  "li_inline =
     \<lparr>w_anc = [new_element ''UL''], w_el = new_element ''LI'',
        w_children = [TextNode (''Item {.a}'' @ [NL] @ ''{: .x}'')]\<rparr>"

text \<open>
  A \<open>pre\<close> element as the post processor hands it to the walk: the annotation of the
  fence line as its first child, then the \<open>code\<close> element.
\<close>

definition pre_root :: world where
  "pre_root =
     \<lparr>w_anc = [new_element ''DIV''], w_el = new_element ''PRE'',
        w_children = [TextNode ''{.note}'', ElementNode (new_element ''CODE'') [TextNode ''x {.inner}'']]\<rparr>"

text \<open>A paragraph with inline code that is followed by an annotation.\<close>

definition p_code :: world where
  "p_code =
     \<lparr>w_anc = [new_element ''DIV''], w_el = new_element ''P'',
        w_children = [ElementNode (new_element ''CODE'') [TextNode ''{.inner}''], TextNode '' text {.note}'']\<rparr>"

text \<open>
  A list item that holds a code block whose last line reads like an annotation, and
  then a block annotation of its own.
\<close>

definition li_code :: world where
  "li_code =
     \<lparr>w_anc = [new_element ''UL''], w_el = new_element ''LI'',
        w_children =
          [TextNode ''Item'',
           ElementNode (new_element ''PRE'')
             [ElementNode (new_element ''CODE'') [TextNode (''x'' @ [NL] @ ''{.note}'' @ [NL])]],
           TextNode (NL # ''{.note}'')]\<rparr>"

text \<open>
  The list item of the specification, \<open><li>Item\<close> \<open>{: #x}</li>\<close> with the annotation
  on a line of its own (\<open>#x\<close> is not an attribute name), and a list item with an
  inline annotation whose block annotation sets an attribute to a value with an
  ampersand.
\<close>

definition li_hash :: world where
  "li_hash =
     \<lparr>w_anc = [new_element ''UL''], w_el = new_element ''LI'',
        w_children = [TextNode (''Item'' @ [NL] @ ''{: #x}'')]\<rparr>"

definition li_amp :: world where
  "li_amp =
     \<lparr>w_anc = [new_element ''UL''], w_el = new_element ''LI'',
        w_children = [TextNode (''Item {.a}'' @ [NL] @ ''{: data-x=a&b}'')]\<rparr>"

text \<open>The second list item once its list has received the attribute.\<close>

definition li_amp_applied :: world where
  "li_amp_applied =
     \<lparr>w_anc = [\<lparr>tagName = ''UL'', is_html = True, classList = [], el_attributes = [(''data-x'', ''a&b'')]\<rparr>],
        w_el = new_element ''LI'',
        w_children = [TextNode (''Item {.a}'' @ [NL] @ ''{: data-x=a&b}'')]\<rparr>"

text \<open>
  A paragraph in a quote and an element with the class \<open>callout\<close>, each with a block
  annotation after its text.
\<close>

definition quote_child :: world where
  "quote_child =
     \<lparr>w_anc = [new_element ''BLOCKQUOTE'', new_element ''DIV''], w_el = new_element ''P'',
        w_children = [TextNode (''Quote'' @ [NL] @ ''{: .q}'')]\<rparr>"

definition callout_block :: world where
  "callout_block =
     \<lparr>w_anc = [new_element ''DIV''],
        w_el = \<lparr>tagName = ''DIV'', is_html = True, classList = [''callout''], el_attributes = []\<rparr>,
        w_children = [TextNode (''Note'' @ [NL] @ ''{: .c}'')]\<rparr>"

text \<open>
  Two headings with the same annotation, \<open># a {.x}\<close> and \<open># b {.x}\<close>, and the
  syntax nodes of the two lines: the mark of the heading and its text.
\<close>

definition two_headings :: string where
  "two_headings = ''# a {.x}'' @ [NL] @ ''# b {.x}''"

definition two_headings_nodes :: "SyntaxNode list list" where
  "two_headings_nodes =
     [[\<lparr>node_props = Some ''formatting formatting-header formatting-header-1 header header-1'',
         node_from = 0, node_to = 2\<rparr>,
       \<lparr>node_props = Some ''header header-1'', node_from = 2, node_to = 8\<rparr>,
       \<lparr>node_props = Some ''formatting formatting-header formatting-header-1 header header-1'',
         node_from = 9, node_to = 11\<rparr>,
       \<lparr>node_props = Some ''header header-1'', node_from = 11, node_to = 17\<rparr>]]"

text \<open>A node the loop over the children passes over: a text node, or a skipped child.\<close>

definition untouched :: "Node \<Rightarrow> bool" where
  "untouched nd = (case nd of TextNode d \<Rightarrow> True | ElementNode c kids \<Rightarrow> skipped_child c)"

section \<open>Properties of the live decorations\<close>

subsection \<open>The overlap predicate\<close>

lemma rangesInclude_iff:
  "rangesInclude ranges f t \<longleftrightarrow>
     (\<exists>r \<in> set ranges.
        (f \<le> sel_from r \<and> sel_from r \<le> t) \<or> (f \<le> sel_to r \<and> sel_to r \<le> t) \<or>
        (sel_from r < f \<and> t < sel_to r))"
  by (induction ranges) (auto simp: Let_def)

text \<open>
  C6. \<open>rangesInclude(ranges, from, to)\<close> is true exactly when some selection range
  has its start in \<open>[from, to]\<close>, both ends included, or its end in \<open>[from, to]\<close>,
  both ends included, or strictly contains \<open>[from, to]\<close>. In particular, for a span
  with \<open>from \<le> to\<close>, a selection that starts at the start of the span or ends at
  its end counts as inside.
\<close>

theorem rangesInclude_inclusive:
  "(rangesInclude ranges f t \<longleftrightarrow>
      (\<exists>r \<in> set ranges.
         (f \<le> sel_from r \<and> sel_from r \<le> t) \<or> (f \<le> sel_to r \<and> sel_to r \<le> t) \<or>
         (sel_from r < f \<and> t < sel_to r))) \<and>
   (f \<le> t \<longrightarrow> (\<exists>r \<in> set ranges. sel_from r = f \<or> sel_to r = t) \<longrightarrow> rangesInclude ranges f t)"
  unfolding rangesInclude_iff by auto

text \<open>
  C6, witness: a caret at the start of the span \<open>[3, 7]\<close>, a caret at its end and
  a selection around it are inside; selections before and after it are not.
\<close>

theorem rangesInclude_inclusive_witness:
  "rangesInclude [\<lparr>sel_from = 3, sel_to = 3\<rparr>] 3 7 \<and>
   rangesInclude [\<lparr>sel_from = 7, sel_to = 7\<rparr>] 3 7 \<and>
   rangesInclude [\<lparr>sel_from = 1, sel_to = 9\<rparr>] 3 7 \<and>
   \<not> rangesInclude [\<lparr>sel_from = 1, sel_to = 2\<rparr>, \<lparr>sel_from = 8, sel_to = 9\<rparr>] 3 7"
  using rangesInclude_inclusive [of "[\<lparr>sel_from = 3, sel_to = 3\<rparr>]" 3 7]
    rangesInclude_inclusive [of "[\<lparr>sel_from = 7, sel_to = 7\<rparr>]" 3 7]
  by simp

subsection \<open>The decoration cache\<close>













subsection \<open>The state field\<close>

lemma reduce_effects_append:
  "reduce_effects tr (es @ [ReplaceEffect v]) deco =
     (case reduce_effects tr es deco of Inl e \<Rightarrow> Inl e | Inr d \<Rightarrow> filter_decos (tr_newSelection tr) v)"
  by (induction tr es deco rule: reduce_effects.induct) (auto split: sum.splits)

lemma filter_decos_Inr:
  "filter_decos sel v = Inr d \<Longrightarrow> d = filter (anchor_clear sel) v"
  by (induction v arbitrary: d) (auto simp: anchor_clear_def split: option.splits sum.splits if_splits)

lemma filter_decos_total:
  "list_all (\<lambda>r. spec_loc (rng_value r) \<noteq> None) v \<Longrightarrow>
     filter_decos sel v = Inr (filter (anchor_clear sel) v)"
  by (induction v) (auto simp: anchor_clear_def split: option.splits)

text \<open>
  After a transaction whose last effect is a replace effect, the field holds exactly the
  ranges of that effect whose decoration has a \<open>loc\<close> that does not meet the new
  selection. For the effects the plugin dispatches, an update effect and then a replace
  effect of replace decorations, the field returns that value. A transaction without
  effects commits the old value mapped through the changes, unfiltered.
\<close>

lemma field_update_replace_last:
  "(tr_effects tr = es @ [ReplaceEffect v] \<longrightarrow> field_update deco tr = Inr d \<longrightarrow>
      d = filter (anchor_clear (tr_newSelection tr)) v \<and>
      list_all (anchor_clear (tr_newSelection tr)) d) \<and>
   (tr_effects tr = [UpdateEffect m, ReplaceEffect v] \<longrightarrow>
      list_all (\<lambda>r. spec_loc (rng_value r) \<noteq> None) v \<longrightarrow>
      field_update deco tr = Inr (filter (anchor_clear (tr_newSelection tr)) v)) \<and>
   (tr_effects tr = [] \<longrightarrow> field_update deco tr = Inr (tr_changes tr deco))"
proof (intro conjI impI)
  assume e: "tr_effects tr = es @ [ReplaceEffect v]" and u: "field_update deco tr = Inr d"
  from e u have "filter_decos (tr_newSelection tr) v = Inr d"
    by (simp add: field_update_def reduce_effects_append split: sum.splits)
  then show d: "d = filter (anchor_clear (tr_newSelection tr)) v"
    by (rule filter_decos_Inr)
  show "list_all (anchor_clear (tr_newSelection tr)) d"
    unfolding d by (simp add: list_all_iff)
next
  assume "tr_effects tr = [UpdateEffect m, ReplaceEffect v]"
    and "list_all (\<lambda>r. spec_loc (rng_value r) \<noteq> None) v"
  then show "field_update deco tr = Inr (filter (anchor_clear (tr_newSelection tr)) v)"
    by (simp add: field_update_def filter_decos_total)
next
  assume "tr_effects tr = []"
  then show "field_update deco tr = Inr (tr_changes tr deco)"
    by (simp add: field_update_def)
qed

text \<open>
  C5. The claim is that after a transaction the field holds no replace decoration whose
  annotated span meets the selection, so that a caret inside a hidden annotation shows
  it. The span the field tests is the \<open>loc\<close> stored in the decoration object, and
  \<open>compute\<close> caches that object under the text of the annotation: two annotations with
  the same text share the object made for the first, with the span of the first. In the
  document of the two headings \<open># a {.x}\<close> and \<open># b {.x}\<close>, \<open>build\<close> gives the
  second replace token the span \<open>[11, 17]\<close>, and both replace ranges get the decoration
  with the span \<open>[2, 8]\<close>. The rebuild with the caret at 14, inside the second
  annotation, commits both replace decorations: the second annotation stays hidden. The
  rebuild with the caret at 5, inside the first, commits none. With \<open>{.y}\<close> in the
  second heading each range has its own span, and the caret at 14 drops the second
  decoration and keeps the first.
\<close>

theorem cached_anchor_is_stale:
  "build dyn_plain two_headings two_headings_nodes =
     Inr [MarkToken 2 8 ''.x'' (Some [(''class'', Some ''x'')]),
          ReplaceToken 3 8 (2, 8) ''{.x}'' 2,
          MarkToken 11 17 ''.x'' (Some [(''class'', Some ''x'')]),
          ReplaceToken 12 17 (11, 17) ''{.x}'' 2] \<and>
   fst (updateDecos
          [MarkToken 2 8 ''.x'' (Some [(''class'', Some ''x'')]),
           ReplaceToken 3 8 (2, 8) ''{.x}'' 2,
           MarkToken 11 17 ''.x'' (Some [(''class'', Some ''x'')]),
           ReplaceToken 12 17 (11, 17) ''{.x}'' 2]
          \<lparr>decoCache = Map.empty, allocated = 0\<rparr>) =
     Inr [UpdateEffect
            [\<lparr>rng_from = 2, rng_to = 8,
               rng_value = \<lparr>deco_id = 0, deco_spec = MarkSpec [(''class'', Some ''x'')]\<rparr>\<rparr>,
             \<lparr>rng_from = 11, rng_to = 17,
               rng_value = \<lparr>deco_id = 0, deco_spec = MarkSpec [(''class'', Some ''x'')]\<rparr>\<rparr>],
          ReplaceEffect
            [\<lparr>rng_from = 3, rng_to = 8,
               rng_value = \<lparr>deco_id = 1, deco_spec = ReplaceSpec True (2, 8)\<rparr>\<rparr>,
             \<lparr>rng_from = 12, rng_to = 17,
               rng_value = \<lparr>deco_id = 1, deco_spec = ReplaceSpec True (2, 8)\<rparr>\<rparr>]] \<and>
   rangesInclude [\<lparr>sel_from = 14, sel_to = 14\<rparr>] 11 17 \<and>
   field_update []
     \<lparr>tr_changes = id,
        tr_effects =
          [UpdateEffect
             [\<lparr>rng_from = 2, rng_to = 8,
                rng_value = \<lparr>deco_id = 0, deco_spec = MarkSpec [(''class'', Some ''x'')]\<rparr>\<rparr>,
              \<lparr>rng_from = 11, rng_to = 17,
                rng_value = \<lparr>deco_id = 0, deco_spec = MarkSpec [(''class'', Some ''x'')]\<rparr>\<rparr>],
           ReplaceEffect
             [\<lparr>rng_from = 3, rng_to = 8,
                rng_value = \<lparr>deco_id = 1, deco_spec = ReplaceSpec True (2, 8)\<rparr>\<rparr>,
              \<lparr>rng_from = 12, rng_to = 17,
                rng_value = \<lparr>deco_id = 1, deco_spec = ReplaceSpec True (2, 8)\<rparr>\<rparr>]],
        tr_newSelection = [\<lparr>sel_from = 14, sel_to = 14\<rparr>]\<rparr> =
     Inr [\<lparr>rng_from = 3, rng_to = 8,
            rng_value = \<lparr>deco_id = 1, deco_spec = ReplaceSpec True (2, 8)\<rparr>\<rparr>,
          \<lparr>rng_from = 12, rng_to = 17,
            rng_value = \<lparr>deco_id = 1, deco_spec = ReplaceSpec True (2, 8)\<rparr>\<rparr>] \<and>
   \<not> rangesInclude [\<lparr>sel_from = 5, sel_to = 5\<rparr>] 11 17 \<and>
   field_update []
     \<lparr>tr_changes = id,
        tr_effects =
          [UpdateEffect
             [\<lparr>rng_from = 2, rng_to = 8,
                rng_value = \<lparr>deco_id = 0, deco_spec = MarkSpec [(''class'', Some ''x'')]\<rparr>\<rparr>,
              \<lparr>rng_from = 11, rng_to = 17,
                rng_value = \<lparr>deco_id = 0, deco_spec = MarkSpec [(''class'', Some ''x'')]\<rparr>\<rparr>],
           ReplaceEffect
             [\<lparr>rng_from = 3, rng_to = 8,
                rng_value = \<lparr>deco_id = 1, deco_spec = ReplaceSpec True (2, 8)\<rparr>\<rparr>,
              \<lparr>rng_from = 12, rng_to = 17,
                rng_value = \<lparr>deco_id = 1, deco_spec = ReplaceSpec True (2, 8)\<rparr>\<rparr>]],
        tr_newSelection = [\<lparr>sel_from = 5, sel_to = 5\<rparr>]\<rparr> =
     Inr [] \<and>
   fst (updateDecos
          [MarkToken 2 8 ''.x'' (Some [(''class'', Some ''x'')]),
           ReplaceToken 3 8 (2, 8) ''{.x}'' 2,
           MarkToken 11 17 ''.y'' (Some [(''class'', Some ''y'')]),
           ReplaceToken 12 17 (11, 17) ''{.y}'' 2]
          \<lparr>decoCache = Map.empty, allocated = 0\<rparr>) =
     Inr [UpdateEffect
            [\<lparr>rng_from = 2, rng_to = 8,
               rng_value = \<lparr>deco_id = 0, deco_spec = MarkSpec [(''class'', Some ''x'')]\<rparr>\<rparr>,
             \<lparr>rng_from = 11, rng_to = 17,
               rng_value = \<lparr>deco_id = 2, deco_spec = MarkSpec [(''class'', Some ''y'')]\<rparr>\<rparr>],
          ReplaceEffect
            [\<lparr>rng_from = 3, rng_to = 8,
               rng_value = \<lparr>deco_id = 1, deco_spec = ReplaceSpec True (2, 8)\<rparr>\<rparr>,
             \<lparr>rng_from = 12, rng_to = 17,
               rng_value = \<lparr>deco_id = 3, deco_spec = ReplaceSpec True (11, 17)\<rparr>\<rparr>]] \<and>
   field_update []
     \<lparr>tr_changes = id,
        tr_effects =
          [UpdateEffect
             [\<lparr>rng_from = 2, rng_to = 8,
                rng_value = \<lparr>deco_id = 0, deco_spec = MarkSpec [(''class'', Some ''x'')]\<rparr>\<rparr>,
              \<lparr>rng_from = 11, rng_to = 17,
                rng_value = \<lparr>deco_id = 2, deco_spec = MarkSpec [(''class'', Some ''y'')]\<rparr>\<rparr>],
           ReplaceEffect
             [\<lparr>rng_from = 3, rng_to = 8,
                rng_value = \<lparr>deco_id = 1, deco_spec = ReplaceSpec True (2, 8)\<rparr>\<rparr>,
              \<lparr>rng_from = 12, rng_to = 17,
                rng_value = \<lparr>deco_id = 3, deco_spec = ReplaceSpec True (11, 17)\<rparr>\<rparr>]],
        tr_newSelection = [\<lparr>sel_from = 14, sel_to = 14\<rparr>]\<rparr> =
     Inr [\<lparr>rng_from = 3, rng_to = 8,
            rng_value = \<lparr>deco_id = 1, deco_spec = ReplaceSpec True (2, 8)\<rparr>\<rparr>]"
proof (intro conjI)
  show "build dyn_plain two_headings two_headings_nodes =
     Inr [MarkToken 2 8 ''.x'' (Some [(''class'', Some ''x'')]),
          ReplaceToken 3 8 (2, 8) ''{.x}'' 2,
          MarkToken 11 17 ''.x'' (Some [(''class'', Some ''x'')]),
          ReplaceToken 12 17 (11, 17) ''{.x}'' 2]"
    by code_simp
qed (simp_all add: updateDecos_def compute_def Let_def Decoration_set_def fromEntries_def mk_range_def
       field_update_def)

section \<open>Properties of the annotation parser and the tree applier\<close>

subsection \<open>getAttrs\<close>

text \<open>
  C7. The claim is that a unit is split at its first \<open>=\<close> only, so that \<open>a=b=c\<close>
  gives the key \<open>a\<close> and the value \<open>b=c\<close>. The code splits at every \<open>=\<close> and keeps
  the first two pieces: \<open>a=b=c\<close> gives the key \<open>a\<close> and the value \<open>b\<close>, which is
  what the element receives, and \<open>href=page?id=7\<close> gives the value \<open>page?id\<close>.
\<close>

theorem value_is_cut_at_second_separator:
  "getAttrs (Some ''a=b=c'') = Some [(''a'', Some ''b'')] \<and>
   tryToReplace dom (Some (new_element ''P'')) ''x {a=b=c}'' (getAttrs (Some ''a=b=c'')) ''{a=b=c}'' =
     (Some \<lparr>tagName = ''P'', is_html = True, classList = [], el_attributes = [(''a'', ''b'')]\<rparr>,
      ''x '') \<and>
   getAttrs (Some ''href=page?id=7'') = Some [(''href'', Some ''page?id'')]"
  by code_simp

text \<open>
  C8. The claim is that a fragment that is only a quote character is discarded, the
  back-tick included. The filter of \<open>getAttrs\<close> drops the double and the single quote
  and keeps the back-tick: the input \<open>`\<close> gives the flag \<open>`\<close>, and in
  \<open>a `b c`\<close> the back-tick that the split splices in after \<open>a\<close> becomes a flag of
  its own, where the same input with double quotes gives two tokens. A lone double or
  single quote, the empty string and \<open>undefined\<close> give no result.
\<close>

theorem backtick_fragment_is_kept:
  "getAttrs (Some [BQ]) = Some [([BQ], None)] \<and>
   getAttrs (Some (''a '' @ [BQ] @ ''b c'' @ [BQ])) =
     Some [(''a'', None), ([BQ], None), ([BQ] @ ''b c'' @ [BQ], None)] \<and>
   getAttrs (Some (''a '' @ [DQ] @ ''b c'' @ [DQ])) =
     Some [(''a'', None), ([DQ] @ ''b c'' @ [DQ], None)] \<and>
   getAttrs (Some [DQ]) = None \<and>
   getAttrs (Some [SQ]) = None \<and>
   getAttrs (Some []) = None \<and>
   getAttrs None = None"
  by code_simp

text \<open>
  C1. The claim is that the quotes around a value are stripped before the value is set,
  for single quotes, double quotes and back-ticks. The split of \<open>getAttrs\<close> takes all
  three as quotes, and \<open>tryToReplace\<close> strips the first two only: the unit
  \<open>data-x=`a b`\<close> sets \<open>data-x\<close> to \<open>`a b`\<close> with its back-ticks, where
  \<open>data-x="a b"\<close> sets it to \<open>a b\<close>. After another unit the back-tick spliced in by
  the split becomes an attribute name the host rejects, so that \<open>a=1 data-x=`a b`\<close>
  sets \<open>a\<close> and then gives up: \<open>data-x\<close> is not set and the annotation stays in the
  text.
\<close>

theorem backtick_quotes_are_not_stripped:
  "getAttrs (Some (''data-x='' @ [BQ] @ ''a b'' @ [BQ])) =
     Some [(''data-x'', Some ([BQ] @ ''a b'' @ [BQ]))] \<and>
   tryToReplace dom (Some (new_element ''P'')) (''Hi {data-x='' @ [BQ] @ ''a b'' @ [BQ] @ ''}'')
     (getAttrs (Some (''data-x='' @ [BQ] @ ''a b'' @ [BQ])))
     (''{data-x='' @ [BQ] @ ''a b'' @ [BQ] @ ''}'') =
     (Some \<lparr>tagName = ''P'', is_html = True, classList = [],
             el_attributes = [(''data-x'', [BQ] @ ''a b'' @ [BQ])]\<rparr>, ''Hi '') \<and>
   tryToReplace dom (Some (new_element ''P'')) (''Hi {data-x='' @ [DQ] @ ''a b'' @ [DQ] @ ''}'')
     (getAttrs (Some (''data-x='' @ [DQ] @ ''a b'' @ [DQ])))
     (''{data-x='' @ [DQ] @ ''a b'' @ [DQ] @ ''}'') =
     (Some \<lparr>tagName = ''P'', is_html = True, classList = [],
             el_attributes = [(''data-x'', ''a b'')]\<rparr>, ''Hi '') \<and>
   getAttrs (Some (''a=1 data-x='' @ [BQ] @ ''a b'' @ [BQ])) =
     Some [(''a'', Some ''1''), ([BQ], None), (''data-x'', Some ([BQ] @ ''a b'' @ [BQ]))] \<and>
   tryToReplace dom (Some (new_element ''P'')) (''Hi {a=1 data-x='' @ [BQ] @ ''a b'' @ [BQ] @ ''}'')
     (getAttrs (Some (''a=1 data-x='' @ [BQ] @ ''a b'' @ [BQ])))
     (''{a=1 data-x='' @ [BQ] @ ''a b'' @ [BQ] @ ''}'') =
     (Some \<lparr>tagName = ''P'', is_html = True, classList = [], el_attributes = [(''a'', ''1'')]\<rparr>,
      ''Hi {a=1 data-x='' @ [BQ] @ ''a b'' @ [BQ] @ ''}'')"
  by code_simp

subsection \<open>tryToReplace\<close>

text \<open>
  The loop over the attributes returns an element when it was given one, and an element
  of the same kind when the host keeps kinds.
\<close>

lemma same_kind_refl: "same_kind e e"
  by (simp add: same_kind_def)

lemma same_kind_trans: "same_kind a b \<Longrightarrow> same_kind b c \<Longrightarrow> same_kind a c"
  by (simp add: same_kind_def)

lemma skipped_child_kind: "same_kind c c' \<Longrightarrow> skipped_child c' = skipped_child c"
  by (simp add: same_kind_def skipped_child_def instanceof_HTMLElement_def
      instanceof_HTMLPreElement_def)

lemma keeps_kind_setAttr:
  "keeps_kind h \<Longrightarrow> setAttr h e k v = Returns e' \<or> setAttr h e k v = Throws e' \<Longrightarrow> same_kind e e'"
  unfolding keeps_kind_def by (metis outcome_of.simps)

lemma keeps_kind_addClasses:
  "keeps_kind h \<Longrightarrow> addClasses h e cs = Returns e' \<or> addClasses h e cs = Throws e' \<Longrightarrow> same_kind e e'"
  unfolding keeps_kind_def by (metis outcome_of.simps)

lemma apply_attributes_null: "apply_attributes h None as = (r, ok) \<Longrightarrow> r = None"
  by (induction as) (auto split: if_splits)

lemma apply_attributes_element:
  "apply_attributes h (Some e) as = (r, ok) \<Longrightarrow> \<exists>e'. r = Some e'"
proof (induction as arbitrary: e)
  case Nil
  then show ?case by auto
next
  case (Cons a as)
  obtain key val where a: "a = (key, val)" by (cases a)
  from Cons.prems Cons.IH show ?case
    unfolding a
    by (auto simp: Let_def split: if_splits option.splits outcome.splits)
qed

lemma apply_attributes_kind:
  "keeps_kind h \<Longrightarrow> apply_attributes h (Some e) as = (Some e', ok) \<Longrightarrow> same_kind e e'"
proof (induction as arbitrary: e)
  case Nil
  then show ?case by (simp add: same_kind_refl)
next
  case (Cons a as)
  obtain key val where a: "a = (key, val)" by (cases a)
  from Cons.prems(2) consider
      (skip) "apply_attributes h (Some e) as = (Some e', ok)"
    | (stop) "e' = e"
    | (threw) k v where "setAttr h e k v = Throws e'"
    | (threw_class) cs where "addClasses h e cs = Throws e'"
    | (went) k v e1 where "setAttr h e k v = Returns e1" "apply_attributes h (Some e1) as = (Some e', ok)"
    | (went_class) cs e1 where "addClasses h e cs = Returns e1" "apply_attributes h (Some e1) as = (Some e', ok)"
    unfolding a
    by (auto simp: Let_def split: if_splits option.splits outcome.splits)
  then show ?case
  proof cases
    case skip
    then show ?thesis by (rule Cons.IH [OF Cons.prems(1)])
  next
    case stop
    then show ?thesis by (simp add: same_kind_refl)
  next
    case threw
    then show ?thesis using keeps_kind_setAttr [OF Cons.prems(1)] by blast
  next
    case threw_class
    then show ?thesis using keeps_kind_addClasses [OF Cons.prems(1)] by blast
  next
    case went
    from keeps_kind_setAttr [OF Cons.prems(1)] went(1) have "same_kind e e1" by blast
    moreover from Cons.IH [OF Cons.prems(1) went(2)] have "same_kind e1 e'" .
    ultimately show ?thesis by (rule same_kind_trans)
  next
    case went_class
    from keeps_kind_addClasses [OF Cons.prems(1)] went_class(1) have "same_kind e e1" by blast
    moreover from Cons.IH [OF Cons.prems(1) went_class(2)] have "same_kind e1 e'" .
    ultimately show ?thesis by (rule same_kind_trans)
  qed
qed

lemma tryToReplace_null: "tryToReplace h None content a original = (r, c) \<Longrightarrow> r = None"
  by (auto simp: tryToReplace_def split: option.splits list.splits prod.splits bool.splits
      dest: apply_attributes_null)

lemma tryToReplace_element:
  "tryToReplace h (Some e) content a original = (r, c) \<Longrightarrow> \<exists>e'. r = Some e'"
  by (auto simp: tryToReplace_def split: option.splits list.splits prod.splits bool.splits
      dest: apply_attributes_element)

lemma tryToReplace_kind:
  "keeps_kind h \<Longrightarrow> tryToReplace h (Some e) content a original = (Some e', c) \<Longrightarrow> same_kind e e'"
  by (auto simp: tryToReplace_def same_kind_refl split: option.splits list.splits prod.splits bool.splits
      dest: apply_attributes_kind)

text \<open>
  When the host rejects an attribute, the loop stops there: the attributes before it
  stay applied, those after it are not tried, and the content is returned as it
  was.
\<close>

lemma apply_attributes_append:
  "apply_attributes h element (xs @ ys) =
     (case apply_attributes h element xs of
        (element', True) \<Rightarrow> apply_attributes h element' ys
      | (element', False) \<Rightarrow> (element', False))"
proof (induction xs arbitrary: element)
  case Nil
  show ?case by simp
next
  case (Cons a xs)
  obtain key val where a: "a = (key, val)" by (cases a)
  show ?case
    unfolding a
    by (simp add: Cons Let_def split: option.splits outcome.splits)
qed

lemma tryToReplace_rejected:
  assumes "apply_attributes h element before = (element1, True)"
    and "apply_attributes h element1 [a] = (element2, False)"
  shows "tryToReplace h element content (Some (before @ a # after)) original = (element2, content)"
proof -
  have "apply_attributes h element (before @ [a] @ after) = (element2, False)"
    by (simp only: apply_attributes_append assms) (simp add: assms)
  then show ?thesis
    by (cases before) (simp_all add: tryToReplace_def)
qed

text \<open>
  C10, counterexample: the unit \<open>class=\<close>. Its key is \<open>class\<close>, so its empty value
  goes to \<open>addClasses\<close> as the one token \<open>""\<close>; the host rejects the token, no
  attribute is set and the annotation stays in the text.
\<close>

theorem empty_class_value_counterexample:
  "getAttrs (Some ''class='') = Some [(''class'', Some [])] \<and>
   tryToReplace dom (Some (new_element ''P'')) ''x {class=}'' (getAttrs (Some ''class='')) ''{class=}'' =
     (Some (new_element ''P''), ''x {class=}'') \<and>
   new_element ''P'' = \<lparr>tagName = ''P'', is_html = True, classList = [], el_attributes = []\<rparr>"
  by code_simp

text \<open>
  C10, as amended. For a key that is neither empty nor \<open>class\<close> and a value that is
  empty once its quotes are stripped, the loop does what it does for the flag with that
  key: it calls \<open>setAttr(key, true)\<close>, goes on with the other attributes when the call
  returns and stops when it throws. For the key \<open>class\<close> such a value is not set as a
  flag: it goes to \<open>addClasses\<close> as the one empty class name, and the loop goes on when
  that call returns and stops when it throws. A pair with an empty key is passed over,
  and the loop goes on.
\<close>

theorem empty_value_sets_flag:
  "(key \<noteq> [] \<longrightarrow> key \<noteq> ''class'' \<longrightarrow> strip_quotes v = [] \<longrightarrow>
      apply_attributes h (Some e) ((key, Some v) # attributes) =
        apply_attributes h (Some e) ((key, None) # attributes) \<and>
      apply_attributes h (Some e) ((key, Some v) # attributes) =
        (case setAttr h e key AttrTrue of
           Returns e' \<Rightarrow> apply_attributes h (Some e') attributes
         | Throws e' \<Rightarrow> (Some e', False))) \<and>
   (strip_quotes v = [] \<longrightarrow>
      apply_attributes h (Some e) ((''class'', Some v) # attributes) =
        (case addClasses h e [[]] of
           Returns e' \<Rightarrow> apply_attributes h (Some e') attributes
         | Throws e' \<Rightarrow> (Some e', False))) \<and>
   apply_attributes h element (([], val) # attributes) = apply_attributes h element attributes"
  by (simp add: Let_def)

text \<open>
  C10, witness: the unit \<open>key=\<close> gives the pair of \<open>key\<close> and the empty string, and
  the element receives \<open>key="true"\<close>, as for the flag \<open>key\<close>, also after a pair with an
  empty key. The pair of \<open>class\<close> and the empty string goes to \<open>addClasses\<close>, which
  rejects the empty class name: the element is left as it was and the loop stops.
\<close>

theorem empty_value_sets_flag_witness:
  "getAttrs (Some ''key='') = Some [(''key'', Some [])] \<and>
   apply_attributes dom (Some (new_element ''P'')) [(''key'', Some [])] =
     apply_attributes dom (Some (new_element ''P'')) [(''key'', None)] \<and>
   apply_attributes dom (Some (new_element ''P'')) [(''key'', Some [])] =
     (Some \<lparr>tagName = ''P'', is_html = True, classList = [], el_attributes = [(''key'', ''true'')]\<rparr>,
      True) \<and>
   tryToReplace dom (Some (new_element ''P'')) ''x {key=}'' (getAttrs (Some ''key='')) ''{key=}'' =
     (Some \<lparr>tagName = ''P'', is_html = True, classList = [], el_attributes = [(''key'', ''true'')]\<rparr>,
      ''x '') \<and>
   apply_attributes dom (Some (new_element ''P'')) [(''class'', Some [])] =
     (Some \<lparr>tagName = ''P'', is_html = True, classList = [], el_attributes = []\<rparr>, False) \<and>
   apply_attributes dom (Some (new_element ''P'')) [([], Some ''v''), (''key'', Some [])] =
     (Some \<lparr>tagName = ''P'', is_html = True, classList = [], el_attributes = [(''key'', ''true'')]\<rparr>,
      True)"
proof -
  have g: "getAttrs (Some ''key='') = Some [(''key'', Some [])]"
    by code_simp
  have k: "''key'' \<noteq> []" "''key'' \<noteq> ''class''" "strip_quotes [] = []"
    by (simp_all add: strip_quotes_def)
  have s: "(case setAttr dom (new_element ''P'') ''key'' AttrTrue of
             Returns e' \<Rightarrow> apply_attributes dom (Some e') []
           | Throws e' \<Rightarrow> (Some e', False)) =
     (Some \<lparr>tagName = ''P'', is_html = True, classList = [], el_attributes = [(''key'', ''true'')]\<rparr>,
      True)"
    by code_simp
  have c: "(case addClasses dom (new_element ''P'') [[]] of
             Returns e' \<Rightarrow> apply_attributes dom (Some e') []
           | Throws e' \<Rightarrow> (Some e', False)) =
     (Some \<lparr>tagName = ''P'', is_html = True, classList = [], el_attributes = []\<rparr>, False)"
    by code_simp
  have t: "tryToReplace dom (Some (new_element ''P'')) ''x {key=}'' (getAttrs (Some ''key='')) ''{key=}'' =
     (Some \<lparr>tagName = ''P'', is_html = True, classList = [], el_attributes = [(''key'', ''true'')]\<rparr>,
      ''x '')"
    by code_simp
  note inst = empty_value_sets_flag [of "''key''" "[]" dom "new_element ''P''" "[]" "Some (new_element ''P'')"
      "Some ''v''"]
  from inst k s
  have a: "apply_attributes dom (Some (new_element ''P'')) [(''key'', Some [])] =
     apply_attributes dom (Some (new_element ''P'')) [(''key'', None)]"
    and b: "apply_attributes dom (Some (new_element ''P'')) [(''key'', Some [])] =
     (Some \<lparr>tagName = ''P'', is_html = True, classList = [], el_attributes = [(''key'', ''true'')]\<rparr>,
      True)"
    by metis+
  from inst k c
  have d: "apply_attributes dom (Some (new_element ''P'')) [(''class'', Some [])] =
     (Some \<lparr>tagName = ''P'', is_html = True, classList = [], el_attributes = []\<rparr>, False)"
    by metis
  from empty_value_sets_flag [of "''key''" "[]" dom "new_element ''P''" "[(''key'', Some [])]"
      "Some (new_element ''P'')" "Some ''v''"]
  have "apply_attributes dom (Some (new_element ''P'')) [([], Some ''v''), (''key'', Some [])] =
     apply_attributes dom (Some (new_element ''P'')) [(''key'', Some [])]"
    by (rule conjunct2 [THEN conjunct2])
  with b have e: "apply_attributes dom (Some (new_element ''P'')) [([], Some ''v''), (''key'', Some [])] =
     (Some \<lparr>tagName = ''P'', is_html = True, classList = [], el_attributes = [(''key'', ''true'')]\<rparr>,
      True)"
    by simp
  from g a b t d e show ?thesis by (intro conjI)
qed

subsection \<open>The loop over the children\<close>

text \<open>
  The loop keeps what was found before it, does not depend on what the walk would do on
  a child it passes over, and leaves the text nodes and the children it passes over as
  they are.
\<close>

lemma children_loop_extends:
  "children_loop rec is (acc, w) = Some (res, w') \<Longrightarrow> \<exists>rest. res = acc @ rest"
proof (induction "is" arbitrary: acc w)
  case Nil
  then show ?case by simp
next
  case (Cons i "is")
  show ?case
  proof (cases "w_children w ! i")
    case (TextNode d)
    with Cons.prems have "children_loop rec is (acc, w) = Some (res, w')" by simp
    then show ?thesis by (rule Cons.IH)
  next
    case (ElementNode child kids)
    note node = this
    show ?thesis
    proof (cases "skipped_child child")
      case True
      with node Cons.prems have "children_loop rec is (acc, w) = Some (res, w')" by simp
      then show ?thesis by (rule Cons.IH)
    next
      case False
      with node Cons.prems obtain found w1 where
        "rec \<lparr>w_anc = w_el w # w_anc w, w_el = child, w_children = kids\<rparr> = Some (found, w1)"
        and run: "children_loop rec is
           (acc @ found,
            \<lparr>w_anc = tl (w_anc w1), w_el = hd (w_anc w1),
               w_children = (w_children w)[i := ElementNode (w_el w1) (w_children w1)]\<rparr>) =
           Some (res, w')"
        by (auto split: option.splits)
      from Cons.IH [OF run] show ?thesis by auto
    qed
  qed
qed

lemma children_loop_never_calls_skipped:
  "(\<And>x. \<not> skipped_child (w_el x) \<Longrightarrow> rec x = rec' x) \<Longrightarrow>
     children_loop rec is acc = children_loop rec' is acc"
proof (induction "is" arbitrary: acc)
  case Nil
  then show ?case by simp
next
  case (Cons i "is")
  obtain elements w where acc: "acc = (elements, w)" by (cases acc)
  show ?case
  proof (cases "w_children w ! i")
    case (TextNode d)
    with acc Cons show ?thesis by simp
  next
    case (ElementNode child kids)
    note node = this
    show ?thesis
    proof (cases "skipped_child child")
      case True
      with node acc Cons show ?thesis by simp
    next
      case False
      then have "rec \<lparr>w_anc = w_el w # w_anc w, w_el = child, w_children = kids\<rparr> =
                 rec' \<lparr>w_anc = w_el w # w_anc w, w_el = child, w_children = kids\<rparr>"
        by (intro Cons.prems) simp
      with node acc False Cons show ?thesis by (simp split: option.splits)
    qed
  qed
qed

lemma children_loop_frame:
  "children_loop rec is (acc, w) = Some (res, w') \<Longrightarrow>
     length (w_children w') = length (w_children w) \<and>
     (\<forall>j. untouched (w_children w ! j) \<longrightarrow> w_children w' ! j = w_children w ! j)"
proof (induction "is" arbitrary: acc w)
  case Nil
  then show ?case by simp
next
  case (Cons i "is")
  show ?case
  proof (cases "w_children w ! i")
    case (TextNode d)
    with Cons.prems have "children_loop rec is (acc, w) = Some (res, w')" by simp
    then show ?thesis by (rule Cons.IH)
  next
    case (ElementNode child kids)
    note node = this
    show ?thesis
    proof (cases "skipped_child child")
      case True
      with node Cons.prems have "children_loop rec is (acc, w) = Some (res, w')" by simp
      then show ?thesis by (rule Cons.IH)
    next
      case False
      with node Cons.prems obtain found w1 where
        "rec \<lparr>w_anc = w_el w # w_anc w, w_el = child, w_children = kids\<rparr> = Some (found, w1)"
        and run: "children_loop rec is
           (acc @ found,
            \<lparr>w_anc = tl (w_anc w1), w_el = hd (w_anc w1),
               w_children = (w_children w)[i := ElementNode (w_el w1) (w_children w1)]\<rparr>) =
           Some (res, w')"
        by (auto split: option.splits)
      let ?mid = "(w_children w)[i := ElementNode (w_el w1) (w_children w1)]"
      from Cons.IH [OF run]
      have len: "length (w_children w') = length ?mid"
        and keep: "\<forall>j. untouched (?mid ! j) \<longrightarrow> w_children w' ! j = ?mid ! j"
        by simp_all
      have "w_children w' ! j = w_children w ! j" if u: "untouched (w_children w ! j)" for j
      proof -
        from u node False have "j \<noteq> i" by (auto simp: untouched_def)
        then have "?mid ! j = w_children w ! j" by simp
        with u keep show ?thesis by simp
      qed
      with len show ?thesis by simp
    qed
  qed
qed

text \<open>
  A result of the walk does not depend on the bound: with a larger bound the walk
  returns the same.
\<close>

lemma children_loop_mono:
  assumes "\<And>x r. rec x = Some r \<Longrightarrow> rec' x = Some r"
  shows "children_loop rec is acc = Some r \<Longrightarrow> children_loop rec' is acc = Some r"
proof (induction "is" arbitrary: acc)
  case Nil
  then show ?case by simp
next
  case (Cons i "is")
  obtain elements w where acc: "acc = (elements, w)" by (cases acc)
  show ?case
  proof (cases "w_children w ! i")
    case (TextNode d)
    with acc Cons show ?thesis by simp
  next
    case (ElementNode child kids)
    note node = this
    show ?thesis
    proof (cases "skipped_child child")
      case True
      with node acc Cons show ?thesis by simp
    next
      case False
      with node acc Cons.prems obtain found w1 where
        call: "rec \<lparr>w_anc = w_el w # w_anc w, w_el = child, w_children = kids\<rparr> = Some (found, w1)"
        and run: "children_loop rec is
           (elements @ found,
            \<lparr>w_anc = tl (w_anc w1), w_el = hd (w_anc w1),
               w_children = (w_children w)[i := ElementNode (w_el w1) (w_children w1)]\<rparr>) = Some r"
        by (auto split: option.splits)
      from assms [OF call] Cons.IH [OF run] node acc False show ?thesis by simp
    qed
  qed
qed

lemma more_fuel_same_result:
  "recurseAndParseElements h n w = Some r \<Longrightarrow> recurseAndParseElements h (Suc n) w = Some r"
proof (induction n arbitrary: w r)
  case 0
  then show ?case by simp
next
  case (Suc n)
  have loop: "children_loop (recurseAndParseElements h (Suc n)) is acc = Some r'"
    if "children_loop (recurseAndParseElements h n) is acc = Some r'" for "is" acc r'
    using that by (rule children_loop_mono [rotated]) (rule Suc.IH)
  show ?case
  proof (cases "re_match BLOCK_RE (getTopLevelText (w_children w))")
    case (Some m)
    obtain toAdd w1 where b: "block_branch h w m = (toAdd, w1)"
      by (cases "block_branch h w m")
    show ?thesis
    proof (cases "instanceof_HTMLLIElement (w_el w)")
      case True
      with Some b Suc.prems obtain found w2 where
        again: "recurseAndParseElements h n w1 = Some (found, w2)"
        and rest: "children_loop (recurseAndParseElements h n) [0 ..< length (w_children w2)]
           (toAdd # found, w2) = Some r"
        by (auto split: option.splits)
      from Suc.IH [OF again] loop [OF rest] Some b True show ?thesis
        by (simp add: recurseAndParseElements.simps(2) [of h "Suc n"])
    next
      case False
      with Some b Suc.prems have
        "children_loop (recurseAndParseElements h n) [0 ..< length (w_children w1)]
           ([toAdd], w1) = Some r"
        by simp
      from loop [OF this] Some b False show ?thesis
        by (simp add: recurseAndParseElements.simps(2) [of h "Suc n"])
    qed
  next
    case None
    note noblock = this
    show ?thesis
    proof (cases "re_match BASE_RE (getTopLevelText (w_children w))")
      case (Some m)
      obtain toAdd w1 where b: "inline_branch h w m = (toAdd, w1)"
        by (cases "inline_branch h w m")
      with noblock Some Suc.prems have
        "children_loop (recurseAndParseElements h n) [0 ..< length (w_children w1)]
           ([toAdd], w1) = Some r"
        by simp
      from loop [OF this] noblock Some b show ?thesis
        by (simp add: recurseAndParseElements.simps(2) [of h "Suc n"])
    next
      case None
      with noblock Suc.prems have
        "children_loop (recurseAndParseElements h n) [0 ..< length (w_children w)] ([], w) = Some r"
        by simp
      from loop [OF this] noblock None show ?thesis
        by (simp add: recurseAndParseElements.simps(2) [of h "Suc n"])
    qed
  qed
qed

text \<open>
  The walk changes the ancestors in place: it returns as many as it was given, so the
  loop finds the element at the head of the list a child hands back.
\<close>

lemma target_put_ancestors: "length (w_anc (target_put w t el')) = length (w_anc w)"
  by (cases el'; cases t) (auto split: Node.splits)

lemma block_branch_ancestors:
  "block_branch h w m = (toAdd, w1) \<Longrightarrow> length (w_anc w1) = length (w_anc w)"
  by (auto simp: block_branch_def Let_def target_put_ancestors split: prod.splits)

lemma inline_branch_ancestors:
  "inline_branch h w m = (toAdd, w1) \<Longrightarrow> length (w_anc w1) = length (w_anc w)"
  by (auto simp: inline_branch_def Let_def target_put_ancestors split: prod.splits option.splits)

lemma children_loop_ancestors:
  assumes "\<And>x r x'. rec x = Some (r, x') \<Longrightarrow> length (w_anc x') = length (w_anc x)"
  shows "children_loop rec is (acc, w) = Some (res, w') \<Longrightarrow> length (w_anc w') = length (w_anc w)"
proof (induction "is" arbitrary: acc w)
  case Nil
  then show ?case by simp
next
  case (Cons i "is")
  show ?case
  proof (cases "w_children w ! i")
    case (TextNode d)
    with Cons.prems have "children_loop rec is (acc, w) = Some (res, w')" by simp
    then show ?thesis by (rule Cons.IH)
  next
    case (ElementNode child kids)
    note node = this
    show ?thesis
    proof (cases "skipped_child child")
      case True
      with node Cons.prems have "children_loop rec is (acc, w) = Some (res, w')" by simp
      then show ?thesis by (rule Cons.IH)
    next
      case False
      with node Cons.prems obtain found w1 where
        call: "rec \<lparr>w_anc = w_el w # w_anc w, w_el = child, w_children = kids\<rparr> = Some (found, w1)"
        and run: "children_loop rec is
           (acc @ found,
            \<lparr>w_anc = tl (w_anc w1), w_el = hd (w_anc w1),
               w_children = (w_children w)[i := ElementNode (w_el w1) (w_children w1)]\<rparr>) =
           Some (res, w')"
        by (auto split: option.splits)
      from assms [OF call] have "length (tl (w_anc w1)) = length (w_anc w)" by simp
      with Cons.IH [OF run] show ?thesis by simp
    qed
  qed
qed

lemma walk_keeps_ancestors:
  "recurseAndParseElements h n w = Some (res, w') \<Longrightarrow> length (w_anc w') = length (w_anc w)"
proof (induction n arbitrary: w res w')
  case 0
  then show ?case by simp
next
  case (Suc n)
  note loop = children_loop_ancestors [of "recurseAndParseElements h n", OF Suc.IH]
  show ?case
  proof (cases "re_match BLOCK_RE (getTopLevelText (w_children w))")
    case (Some m)
    obtain toAdd w1 where b: "block_branch h w m = (toAdd, w1)"
      by (cases "block_branch h w m")
    note w1 = block_branch_ancestors [OF b]
    show ?thesis
    proof (cases "instanceof_HTMLLIElement (w_el w)")
      case True
      with Some b Suc.prems obtain found w2 where
        again: "recurseAndParseElements h n w1 = Some (found, w2)"
        and rest: "children_loop (recurseAndParseElements h n) [0 ..< length (w_children w2)]
           (toAdd # found, w2) = Some (res, w')"
        by (auto split: option.splits)
      from Suc.IH [OF again] loop [OF _ rest] w1 show ?thesis by simp
    next
      case False
      with Some b Suc.prems have
        "children_loop (recurseAndParseElements h n) [0 ..< length (w_children w1)]
           ([toAdd], w1) = Some (res, w')"
        by simp
      from loop [OF _ this] w1 show ?thesis by simp
    qed
  next
    case None
    note noblock = this
    show ?thesis
    proof (cases "re_match BASE_RE (getTopLevelText (w_children w))")
      case (Some m)
      obtain toAdd w1 where b: "inline_branch h w m = (toAdd, w1)"
        by (cases "inline_branch h w m")
      with noblock Some Suc.prems have
        "children_loop (recurseAndParseElements h n) [0 ..< length (w_children w1)]
           ([toAdd], w1) = Some (res, w')"
        by simp
      from loop [OF _ this] inline_branch_ancestors [OF b] show ?thesis by simp
    next
      case None
      with noblock Suc.prems have
        "children_loop (recurseAndParseElements h n) [0 ..< length (w_children w)] ([], w) =
           Some (res, w')"
        by simp
      from loop [OF _ this] show ?thesis by simp
    qed
  qed
qed

text \<open>
  An own text that matches the inline grammar is not empty, so the element has a text
  node.
\<close>

lemma no_text_node_no_text: "first_text nodes = None \<Longrightarrow> getTopLevelText nodes = []"
  by (induction nodes rule: first_text.induct) auto

lemma BASE_RE_empty: "re_match BASE_RE [] = None"
  by code_simp

lemma inline_match_has_text_node:
  "re_match BASE_RE (getTopLevelText nodes) = Some m \<Longrightarrow> \<exists>ti. first_text nodes = Some ti"
proof (cases "first_text nodes")
  case None
  assume "re_match BASE_RE (getTopLevelText nodes) = Some m"
  with no_text_node_no_text [OF None] BASE_RE_empty show ?thesis by simp
next
  case (Some ti)
  then show ?thesis by blast
qed

subsection \<open>Block annotations\<close>

lemma block_target_cases:
  "block_target w =
     (if instanceof_HTMLLIElement (w_el w) \<or>
         (\<exists>p ps. w_anc w = p # ps \<and> instanceof_HTMLQuoteElement p) \<or>
         hasClass (w_el w) ''callout''
      then parentElement w TSelf else TSelf)"
  by (cases "w_anc w") (auto simp: block_target_def)

text \<open>
  When the own text of an element matches the block grammar and the walk returns, the
  first record it returns is the one of the block annotation. Its target is the parent
  of the element when the element is a list item, when its parent is a quote element or
  when it has the class \<open>callout\<close>, and then the element itself is left as it was;
  otherwise the target is the element. The attributes go to the target through
  \<open>tryToReplace\<close>, and the string it returns becomes the \<open>innerHTML\<close> of the element.
  When the element is a list item, the walk then runs on the element again, whatever
  \<open>tryToReplace\<close> returned.
\<close>

lemma block_annotation_goes_to_parent:
  assumes m: "re_match BLOCK_RE (getTopLevelText (w_children w)) = Some m"
    and run: "recurseAndParseElements h (Suc n) w = Some (res, w')"
  shows "\<exists>toAdd w1 more applied content.
           block_branch h w m = (toAdd, w1) \<and>
           res = toAdd # more \<and>
           ewa_element toAdd = Some (block_target w) \<and>
           ewa_attributes toAdd = getAttrs (r_group m) \<and>
           tryToReplace h (target_get w (block_target w)) (get_innerHTML h (w_children w))
             (getAttrs (r_group m)) (r_text m) = (applied, content) \<and>
           w1 = (target_put w (block_target w) applied)\<lparr>w_children := set_innerHTML h content\<rparr> \<and>
           (\<forall>as el'. getAttrs (r_group m) = Some as \<longrightarrow> as \<noteq> [] \<longrightarrow>
              apply_attributes h (target_get w (block_target w)) as = (el', True) \<longrightarrow>
              applied = el' \<and> content = remove_first (r_text m) (get_innerHTML h (w_children w))) \<and>
           (instanceof_HTMLLIElement (w_el w) \<or>
            (\<exists>p ps. w_anc w = p # ps \<and> instanceof_HTMLQuoteElement p) \<or>
            hasClass (w_el w) ''callout''
              \<longrightarrow> block_target w = parentElement w TSelf \<and> w_el w1 = w_el w) \<and>
           (\<not> (instanceof_HTMLLIElement (w_el w) \<or>
               (\<exists>p ps. w_anc w = p # ps \<and> instanceof_HTMLQuoteElement p) \<or>
               hasClass (w_el w) ''callout'')
              \<longrightarrow> block_target w = TSelf \<and> w_anc w1 = w_anc w) \<and>
           (instanceof_HTMLLIElement (w_el w)
              \<longrightarrow> (\<exists>found w2 later.
                     recurseAndParseElements h n w1 = Some (found, w2) \<and>
                     res = toAdd # found @ later))"
proof -
  obtain toAdd w1 where b: "block_branch h w m = (toAdd, w1)"
    by (cases "block_branch h w m")
  obtain applied content where t:
    "tryToReplace h (target_get w (block_target w)) (get_innerHTML h (w_children w))
       (getAttrs (r_group m)) (r_text m) = (applied, content)"
    by (cases "tryToReplace h (target_get w (block_target w)) (get_innerHTML h (w_children w))
       (getAttrs (r_group m)) (r_text m)")
  from b t have toAdd: "toAdd = \<lparr>ewa_element = Some (block_target w),
      ewa_attributes = getAttrs (r_group m), ewa_text = r_group m\<rparr>"
    and w1: "w1 = (target_put w (block_target w) applied)\<lparr>w_children := set_innerHTML h content\<rparr>"
    by (simp_all add: block_branch_def Let_def)
  have up: "block_target w = parentElement w TSelf \<and> w_el w1 = w_el w"
    if "instanceof_HTMLLIElement (w_el w) \<or>
        (\<exists>p ps. w_anc w = p # ps \<and> instanceof_HTMLQuoteElement p) \<or>
        hasClass (w_el w) ''callout''"
  proof -
    from that have bt: "block_target w = parentElement w TSelf"
      by (simp add: block_target_cases)
    have "w_el (target_put w (parentElement w TSelf) applied) = w_el w"
      by (cases applied; cases "w_anc w") simp_all
    with bt w1 show ?thesis by simp
  qed
  have self: "block_target w = TSelf \<and> w_anc w1 = w_anc w"
    if "\<not> (instanceof_HTMLLIElement (w_el w) \<or>
        (\<exists>p ps. w_anc w = p # ps \<and> instanceof_HTMLQuoteElement p) \<or>
        hasClass (w_el w) ''callout'')"
  proof -
    from that have bt: "block_target w = TSelf"
      by (simp add: block_target_cases)
    have "w_anc (target_put w TSelf applied) = w_anc w"
      by (cases applied) simp_all
    with bt w1 show ?thesis by simp
  qed
  have first: "\<exists>more. res = toAdd # more"
  proof (cases "instanceof_HTMLLIElement (w_el w)")
    case True
    with m b run obtain found w2 where
      "children_loop (recurseAndParseElements h n) [0 ..< length (w_children w2)]
         (toAdd # found, w2) = Some (res, w')"
      by (auto split: option.splits)
    from children_loop_extends [OF this] show ?thesis by auto
  next
    case False
    with m b run have
      "children_loop (recurseAndParseElements h n) [0 ..< length (w_children w1)]
         ([toAdd], w1) = Some (res, w')"
      by simp
    from children_loop_extends [OF this] show ?thesis by auto
  qed
  have again: "\<exists>found w2 later.
      recurseAndParseElements h n w1 = Some (found, w2) \<and> res = toAdd # found @ later"
    if li: "instanceof_HTMLLIElement (w_el w)"
  proof -
    from m b run li obtain found w2 where
      r: "recurseAndParseElements h n w1 = Some (found, w2)"
      and "children_loop (recurseAndParseElements h n) [0 ..< length (w_children w2)]
         (toAdd # found, w2) = Some (res, w')"
      by (auto split: option.splits)
    from children_loop_extends [OF this(2)] r show ?thesis by auto
  qed
  from first obtain more where res: "res = toAdd # more" ..
  show ?thesis
  proof (intro exI conjI)
    show "block_branch h w m = (toAdd, w1)" by (rule b)
    show "res = toAdd # more" by (rule res)
    show "ewa_element toAdd = Some (block_target w)" by (simp add: toAdd)
    show "ewa_attributes toAdd = getAttrs (r_group m)" by (simp add: toAdd)
    show "tryToReplace h (target_get w (block_target w)) (get_innerHTML h (w_children w))
       (getAttrs (r_group m)) (r_text m) = (applied, content)" by (rule t)
    show "w1 = (target_put w (block_target w) applied)\<lparr>w_children := set_innerHTML h content\<rparr>"
      by (rule w1)
    show "\<forall>as el'. getAttrs (r_group m) = Some as \<longrightarrow> as \<noteq> [] \<longrightarrow>
        apply_attributes h (target_get w (block_target w)) as = (el', True) \<longrightarrow>
        applied = el' \<and> content = remove_first (r_text m) (get_innerHTML h (w_children w))"
      using t by (auto simp: tryToReplace_def split: list.splits)
    show "instanceof_HTMLLIElement (w_el w) \<or>
        (\<exists>p ps. w_anc w = p # ps \<and> instanceof_HTMLQuoteElement p) \<or>
        hasClass (w_el w) ''callout''
          \<longrightarrow> block_target w = parentElement w TSelf \<and> w_el w1 = w_el w"
      using up by blast
    show "\<not> (instanceof_HTMLLIElement (w_el w) \<or>
        (\<exists>p ps. w_anc w = p # ps \<and> instanceof_HTMLQuoteElement p) \<or>
        hasClass (w_el w) ''callout'')
          \<longrightarrow> block_target w = TSelf \<and> w_anc w1 = w_anc w"
      using self by blast
    show "instanceof_HTMLLIElement (w_el w)
          \<longrightarrow> (\<exists>found w2 later.
                 recurseAndParseElements h n w1 = Some (found, w2) \<and>
                 res = toAdd # found @ later)"
      using again by blast
  qed
qed

text \<open>
  A list item whose block annotation the host rejects comes back from
  \<open>tryToReplace\<close> as it went in, and the walk runs on it again.
\<close>

lemma li_rejected_step:
  "recurseAndParseElements dom (Suc n) li_rejected =
     (case recurseAndParseElements dom n li_rejected of
        None \<Rightarrow> None
      | Some (found, w2) \<Rightarrow>
          children_loop (recurseAndParseElements dom n) [0 ..< length (w_children w2)]
            (\<lparr>ewa_element = Some (TAncestor 0), ewa_attributes = Some [(''=x'', None)],
               ewa_text = Some ''=x''\<rparr> # found, w2))"
proof -
  have m: "re_match BLOCK_RE (getTopLevelText (w_children li_rejected)) =
      Some \<lparr>r_index = 4, r_end = 11, r_text = NL # ''{: =x}'', r_group = Some ''=x''\<rparr>"
    by code_simp
  have b: "block_branch dom li_rejected
      \<lparr>r_index = 4, r_end = 11, r_text = NL # ''{: =x}'', r_group = Some ''=x''\<rparr> =
      (\<lparr>ewa_element = Some (TAncestor 0), ewa_attributes = Some [(''=x'', None)],
         ewa_text = Some ''=x''\<rparr>, li_rejected)"
    by code_simp
  have li: "instanceof_HTMLLIElement (w_el li_rejected)"
    by code_simp
  show ?thesis by (simp add: Let_def m b li)
qed

text \<open>
  C2. The claim is that the walk goes on with the next elements after the host has
  rejected an attribute. It does in a paragraph: the annotation \<open>{=x}\<close> stays in the
  text, and the child element after it still receives its class. In a list item with a
  rejected block annotation it does not: the text is not stripped, the walk calls itself
  on the list item as it was, and no bound on the depth of the calls is enough for it to
  return.
\<close>

theorem rejected_block_annotation_of_list_item:
  "(\<forall>n. recurseAndParseElements dom n li_rejected = None) \<and>
   recurseAndParseElements dom 2 p_rejected =
     Some ([\<lparr>ewa_element = Some TSelf, ewa_attributes = Some [(''=x'', None)],
              ewa_text = Some ''=x''\<rparr>,
            \<lparr>ewa_element = Some TSelf, ewa_attributes = Some [(''class'', Some ''y'')],
              ewa_text = Some ''.y''\<rparr>],
           \<lparr>w_anc = [new_element ''DIV''], w_el = new_element ''P'',
              w_children =
                [TextNode ''Text {=x} '',
                 ElementNode \<lparr>tagName = ''EM'', is_html = True, classList = [''y''], el_attributes = []\<rparr>
                   [TextNode ''more '']]\<rparr>)"
proof
  have "recurseAndParseElements dom n li_rejected = None" for n
  proof (induction n)
    case 0
    show ?case by simp
  next
    case (Suc n)
    show ?case by (subst li_rejected_step) (simp add: Suc)
  qed
  then show "\<forall>n. recurseAndParseElements dom n li_rejected = None" ..
next
  show "recurseAndParseElements dom 2 p_rejected =
     Some ([\<lparr>ewa_element = Some TSelf, ewa_attributes = Some [(''=x'', None)],
              ewa_text = Some ''=x''\<rparr>,
            \<lparr>ewa_element = Some TSelf, ewa_attributes = Some [(''class'', Some ''y'')],
              ewa_text = Some ''.y''\<rparr>],
           \<lparr>w_anc = [new_element ''DIV''], w_el = new_element ''P'',
              w_children =
                [TextNode ''Text {=x} '',
                 ElementNode \<lparr>tagName = ''EM'', is_html = True, classList = [''y''], el_attributes = []\<rparr>
                   [TextNode ''more '']]\<rparr>)"
    by code_simp
qed

text \<open>
  The list item of the specification comes back from \<open>tryToReplace\<close> as it went in,
  since the host rejects \<open>#x\<close>. The list item with \<open>data-x=a&b\<close> comes back with the
  attribute on its list and with its text as it was, and from then on as it went in.
\<close>

lemma li_hash_step:
  "recurseAndParseElements dom (Suc n) li_hash =
     (case recurseAndParseElements dom n li_hash of
        None \<Rightarrow> None
      | Some (found, w2) \<Rightarrow>
          children_loop (recurseAndParseElements dom n) [0 ..< length (w_children w2)]
            (\<lparr>ewa_element = Some (TAncestor 0), ewa_attributes = Some [(''#x'', None)],
               ewa_text = Some ''#x''\<rparr> # found, w2))"
proof -
  have m: "re_match BLOCK_RE (getTopLevelText (w_children li_hash)) =
      Some \<lparr>r_index = 4, r_end = 11, r_text = NL # ''{: #x}'', r_group = Some ''#x''\<rparr>"
    by code_simp
  have b: "block_branch dom li_hash
      \<lparr>r_index = 4, r_end = 11, r_text = NL # ''{: #x}'', r_group = Some ''#x''\<rparr> =
      (\<lparr>ewa_element = Some (TAncestor 0), ewa_attributes = Some [(''#x'', None)],
         ewa_text = Some ''#x''\<rparr>, li_hash)"
    by code_simp
  have li: "instanceof_HTMLLIElement (w_el li_hash)"
    by code_simp
  show ?thesis by (simp add: Let_def m b li)
qed

lemma li_amp_step:
  "recurseAndParseElements dom (Suc n) li_amp =
     (case recurseAndParseElements dom n li_amp_applied of
        None \<Rightarrow> None
      | Some (found, w2) \<Rightarrow>
          children_loop (recurseAndParseElements dom n) [0 ..< length (w_children w2)]
            (\<lparr>ewa_element = Some (TAncestor 0), ewa_attributes = Some [(''data-x'', Some ''a&b'')],
               ewa_text = Some ''data-x=a&b''\<rparr> # found, w2))"
proof -
  have m: "re_match BLOCK_RE (getTopLevelText (w_children li_amp)) =
      Some \<lparr>r_index = 9, r_end = 24, r_text = NL # ''{: data-x=a&b}'', r_group = Some ''data-x=a&b''\<rparr>"
    by code_simp
  have b: "block_branch dom li_amp
      \<lparr>r_index = 9, r_end = 24, r_text = NL # ''{: data-x=a&b}'', r_group = Some ''data-x=a&b''\<rparr> =
      (\<lparr>ewa_element = Some (TAncestor 0), ewa_attributes = Some [(''data-x'', Some ''a&b'')],
         ewa_text = Some ''data-x=a&b''\<rparr>, li_amp_applied)"
    by code_simp
  have li: "instanceof_HTMLLIElement (w_el li_amp)"
    by code_simp
  show ?thesis by (simp add: Let_def m b li)
qed

lemma li_amp_applied_step:
  "recurseAndParseElements dom (Suc n) li_amp_applied =
     (case recurseAndParseElements dom n li_amp_applied of
        None \<Rightarrow> None
      | Some (found, w2) \<Rightarrow>
          children_loop (recurseAndParseElements dom n) [0 ..< length (w_children w2)]
            (\<lparr>ewa_element = Some (TAncestor 0), ewa_attributes = Some [(''data-x'', Some ''a&b'')],
               ewa_text = Some ''data-x=a&b''\<rparr> # found, w2))"
proof -
  have m: "re_match BLOCK_RE (getTopLevelText (w_children li_amp_applied)) =
      Some \<lparr>r_index = 9, r_end = 24, r_text = NL # ''{: data-x=a&b}'', r_group = Some ''data-x=a&b''\<rparr>"
    by code_simp
  have b: "block_branch dom li_amp_applied
      \<lparr>r_index = 9, r_end = 24, r_text = NL # ''{: data-x=a&b}'', r_group = Some ''data-x=a&b''\<rparr> =
      (\<lparr>ewa_element = Some (TAncestor 0), ewa_attributes = Some [(''data-x'', Some ''a&b'')],
         ewa_text = Some ''data-x=a&b''\<rparr>, li_amp_applied)"
    by code_simp
  have li: "instanceof_HTMLLIElement (w_el li_amp_applied)"
    by code_simp
  show ?thesis by (simp add: Let_def m b li)
qed

text \<open>
  C3. The claim is that a block annotation of a list item, of a child of a quote or of a
  callout goes to the parent of the element, and that a list item is parsed again after
  the annotation has been stripped, so that its inline annotations are found. The
  attributes do go to the parent: the paragraph in a quote, the callout and the list
  item \<open>Item {.a}\<close> with \<open>{: .x}\<close> show it, and in the last the second run finds
  \<open>{.a}\<close>. But the second run does not wait for the strip. In the list item of the
  specification, \<open>Item\<close> with \<open>{: #x}\<close>, the host rejects the attribute name, nothing
  is stripped, and the walk calls itself on the same list item: no bound on the depth of
  the calls is enough for it to return. With the block annotation \<open>{: data-x=a&b}\<close>
  the list receives the attribute, but the markup of the list item reads \<open>&amp;\<close>
  where the matched text reads \<open>&\<close>, so nothing is removed from it; the walk calls
  itself on the list item again and again, and the inline annotation \<open>{.a}\<close> is never
  reached.
\<close>

theorem list_item_rerun_without_strip:
  "(\<forall>n. recurseAndParseElements dom n li_hash = None) \<and>
   dom_get_innerHTML (w_children li_amp) = ''Item {.a}'' @ [NL] @ ''{: data-x=a&amp;b}'' \<and>
   block_branch dom li_amp
     \<lparr>r_index = 9, r_end = 24, r_text = NL # ''{: data-x=a&b}'', r_group = Some ''data-x=a&b''\<rparr> =
     (\<lparr>ewa_element = Some (TAncestor 0), ewa_attributes = Some [(''data-x'', Some ''a&b'')],
        ewa_text = Some ''data-x=a&b''\<rparr>,
      \<lparr>w_anc = [\<lparr>tagName = ''UL'', is_html = True, classList = [], el_attributes = [(''data-x'', ''a&b'')]\<rparr>],
         w_el = new_element ''LI'',
         w_children = [TextNode (''Item {.a}'' @ [NL] @ ''{: data-x=a&b}'')]\<rparr>) \<and>
   (\<forall>n. recurseAndParseElements dom n li_amp = None) \<and>
   recurseAndParseElements dom 3 li_inline =
     Some ([\<lparr>ewa_element = Some (TAncestor 0), ewa_attributes = Some [(''class'', Some ''x'')],
              ewa_text = Some ''.x''\<rparr>,
            \<lparr>ewa_element = Some TSelf, ewa_attributes = Some [(''class'', Some ''a'')],
              ewa_text = Some ''.a''\<rparr>],
           \<lparr>w_anc = [\<lparr>tagName = ''UL'', is_html = True, classList = [''x''], el_attributes = []\<rparr>],
              w_el = \<lparr>tagName = ''LI'', is_html = True, classList = [''a''], el_attributes = []\<rparr>,
              w_children = [TextNode ''Item '']\<rparr>) \<and>
   recurseAndParseElements dom 1 quote_child =
     Some ([\<lparr>ewa_element = Some (TAncestor 0), ewa_attributes = Some [(''class'', Some ''q'')],
              ewa_text = Some ''.q''\<rparr>],
           \<lparr>w_anc = [\<lparr>tagName = ''BLOCKQUOTE'', is_html = True, classList = [''q''], el_attributes = []\<rparr>,
                      new_element ''DIV''],
              w_el = new_element ''P'', w_children = [TextNode ''Quote'']\<rparr>) \<and>
   recurseAndParseElements dom 1 callout_block =
     Some ([\<lparr>ewa_element = Some (TAncestor 0), ewa_attributes = Some [(''class'', Some ''c'')],
              ewa_text = Some ''.c''\<rparr>],
           \<lparr>w_anc = [\<lparr>tagName = ''DIV'', is_html = True, classList = [''c''], el_attributes = []\<rparr>],
              w_el = \<lparr>tagName = ''DIV'', is_html = True, classList = [''callout''], el_attributes = []\<rparr>,
              w_children = [TextNode ''Note'']\<rparr>)"
proof (intro conjI)
  have "recurseAndParseElements dom n li_hash = None" for n
  proof (induction n)
    case 0
    show ?case by simp
  next
    case (Suc n)
    show ?case by (subst li_hash_step) (simp add: Suc)
  qed
  then show "\<forall>n. recurseAndParseElements dom n li_hash = None" ..
next
  have applied: "recurseAndParseElements dom n li_amp_applied = None" for n
  proof (induction n)
    case 0
    show ?case by simp
  next
    case (Suc n)
    show ?case by (subst li_amp_applied_step) (simp add: Suc)
  qed
  have "recurseAndParseElements dom n li_amp = None" for n
  proof (cases n)
    case 0
    then show ?thesis by simp
  next
    case (Suc k)
    show ?thesis unfolding Suc by (subst li_amp_step) (simp add: applied)
  qed
  then show "\<forall>n. recurseAndParseElements dom n li_amp = None" ..
qed code_simp+

subsection \<open>Code is not scanned\<close>

lemma first_text_is_text:
  "first_text nodes = Some ti \<Longrightarrow> ti < length nodes \<and> (\<exists>d. nodes ! ti = TextNode d)"
proof (induction nodes arbitrary: ti rule: first_text.induct)
  case 1
  then show ?case by simp
next
  case (2 d nodes)
  then show ?case by auto
next
  case (3 e kids nodes)
  then obtain t0 where "first_text nodes = Some t0" and "ti = Suc t0" by auto
  with "3.IH" show ?case by auto
qed

text \<open>
  Putting an element of the same kind at a place keeps the length of the child list,
  every text node, and the children of every child element.
\<close>

lemma target_put_children:
  assumes "el' = None \<or> (\<exists>e0 e'. target_get w t = Some e0 \<and> el' = Some e' \<and> same_kind e0 e')"
    and "j < length (w_children w)"
  shows "length (w_children (target_put w t el')) = length (w_children w)"
    and "w_children w ! j = TextNode d \<Longrightarrow> w_children (target_put w t el') ! j = TextNode d"
    and "w_children w ! j = ElementNode c kids \<Longrightarrow>
           \<exists>c1. w_children (target_put w t el') ! j = ElementNode c1 kids \<and> same_kind c c1"
proof -
  show "length (w_children (target_put w t el')) = length (w_children w)"
    by (cases el'; cases t) (auto split: Node.splits)
  show "w_children (target_put w t el') ! j = TextNode d" if "w_children w ! j = TextNode d"
    using that assms(2)
    by (cases el'; cases t) (auto simp: nth_list_update split: Node.splits)
  show "\<exists>c1. w_children (target_put w t el') ! j = ElementNode c1 kids \<and> same_kind c c1"
    if node: "w_children w ! j = ElementNode c kids"
  proof (cases el')
    case None
    with node show ?thesis by (simp add: same_kind_refl)
  next
    case (Some e')
    with assms(1) obtain e0 where e0: "target_get w t = Some e0" and kind: "same_kind e0 e'"
      by auto
    show ?thesis
    proof (cases t)
      case (TChild i)
      show ?thesis
      proof (cases "i = j")
        case True
        with e0 TChild node assms(2) have "e0 = c" by simp
        with True TChild Some node assms(2) kind show ?thesis by simp
      next
        case False
        with TChild Some node show ?thesis
          by (auto simp: same_kind_refl split: Node.splits)
      qed
    qed (use Some node in \<open>simp_all add: same_kind_refl\<close>)
  qed
qed

lemma tryToReplace_target:
  assumes "keeps_kind h"
    and "tryToReplace h (target_get w t) content a original = (el', c)"
  shows "el' = None \<or> (\<exists>e0 e'. target_get w t = Some e0 \<and> el' = Some e' \<and> same_kind e0 e')"
proof (cases "target_get w t")
  case None
  with assms(2) show ?thesis by (auto dest: tryToReplace_null)
next
  case (Some e0)
  with assms(2) obtain e' where "el' = Some e'" by (auto dest: tryToReplace_element)
  with assms Some show ?thesis by (auto dest: tryToReplace_kind)
qed

lemma inline_branch_children:
  assumes h: "keeps_kind h"
    and b: "inline_branch h w m = (toAdd, w1)"
    and j: "j < length (w_children w)"
    and node: "w_children w ! j = ElementNode c kids"
  shows "\<exists>c1. w_children w1 ! j = ElementNode c1 kids \<and> same_kind c c1"
proof (cases "first_text (w_children w)")
  case None
  with b have "w1 = w" by (simp add: inline_branch_def)
  with node show ?thesis by (auto simp: same_kind_refl)
next
  case (Some ti)
  define sibling where "sibling = inline_target w ti"
  define textContent where
    "textContent = (case w_children w ! ti of TextNode d \<Rightarrow> d | ElementNode e kids \<Rightarrow> [])"
  obtain el' content where t: "tryToReplace h (target_get w sibling) textContent
      (getAttrs (r_group m)) (r_text m) = (el', content)"
    by (cases "tryToReplace h (target_get w sibling) textContent (getAttrs (r_group m)) (r_text m)")
  from b Some t have w1: "w1 = (target_put w sibling el')
      \<lparr>w_children := (w_children (target_put w sibling el'))[ti := TextNode content]\<rparr>"
    by (simp add: inline_branch_def Let_def sibling_def textContent_def)
  from first_text_is_text [OF Some] node have "ti \<noteq> j" by auto
  moreover from target_put_children(3) [OF tryToReplace_target [OF h t] j node]
  obtain c1 where "w_children (target_put w sibling el') ! j = ElementNode c1 kids"
    and "same_kind c c1" by blast
  ultimately show ?thesis unfolding w1 by simp
qed

lemma enter_codeblock:
  "node_props nd = Some tokenProps \<Longrightarrow> ''hmd-codeblock'' \<in> set (split_char CHR '' '' tokenProps)
     \<Longrightarrow> enter dyn doc nd = Inr []"
  by (simp add: enter_def Let_def)

lemma dom_addClasses_kind: "same_kind e (outcome_of (dom_addClasses e cs))"
proof (induction cs arbitrary: e)
  case Nil
  show ?case by (simp add: same_kind_refl)
next
  case (Cons c cs)
  show ?case
  proof (cases "c = [] \<or> list_ex is_ascii_space c")
    case True
    then show ?thesis by (auto simp: same_kind_refl)
  next
    case False
    let ?e1 = "e\<lparr>classList := (if c \<in> set (classList e) then classList e else classList e @ [c])\<rparr>"
    have "same_kind e ?e1" by (simp add: same_kind_def)
    moreover have "same_kind ?e1 (outcome_of (dom_addClasses ?e1 cs))" by (rule Cons.IH)
    ultimately have "same_kind e (outcome_of (dom_addClasses ?e1 cs))" by (rule same_kind_trans)
    with False show ?thesis by simp
  qed
qed

lemma keeps_kind_dom: "keeps_kind dom"
  by (simp add: keeps_kind_def dom_def dom_addClasses_kind)
     (simp add: dom_setAttr_def same_kind_def Let_def)

text \<open>
  The element handed to the walk as its root is scanned whatever its kind. The post
  processor relies on it: it puts the annotation of the fence line into the \<open>pre\<close>
  element as its first child, and the walk gives the \<open>pre\<close> element the class and
  empties that text node. The \<open>code\<close> element is left as it was.
\<close>

lemma pre_root_is_scanned:
  "recurseAndParseElements dom 2 pre_root =
     Some ([\<lparr>ewa_element = Some TSelf, ewa_attributes = Some [(''class'', Some ''note'')],
              ewa_text = Some ''.note''\<rparr>],
           \<lparr>w_anc = [new_element ''DIV''],
              w_el = \<lparr>tagName = ''PRE'', is_html = True, classList = [''note''], el_attributes = []\<rparr>,
              w_children = [TextNode [], ElementNode (new_element ''CODE'') [TextNode ''x {.inner}'']]\<rparr>)"
  by code_simp

text \<open>
  On a host that keeps kinds, when the own text of the visited element has no block
  annotation and the walk returns, every child that is a \<open>pre\<close> element or has the tag
  name \<open>code\<close> has the children it had before. The loop over the children never runs
  the walk on such a child: its result is the same for any two walks that agree on the
  other elements. In the editor, a syntax node whose classes include
  \<open>hmd-codeblock\<close> yields no token, and the scan goes on as if the node were not
  there.
\<close>

lemma code_children_are_opaque:
  "(keeps_kind h \<longrightarrow> re_match BLOCK_RE (getTopLevelText (w_children w)) = None \<longrightarrow>
      recurseAndParseElements h (Suc n) w = Some (res, w') \<longrightarrow>
      j < length (w_children w) \<longrightarrow> w_children w ! j = ElementNode c kids \<longrightarrow> skipped_child c \<longrightarrow>
      (\<exists>c'. w_children w' ! j = ElementNode c' kids \<and> same_kind c c')) \<and>
   ((\<forall>x. \<not> skipped_child (w_el x) \<longrightarrow> rec x = rec' x) \<longrightarrow>
      children_loop rec is acc = children_loop rec' is acc) \<and>
   (node_props nd = Some tokenProps \<longrightarrow> ''hmd-codeblock'' \<in> set (split_char CHR '' '' tokenProps) \<longrightarrow>
      enter dyn doc nd = Inr [] \<and>
      build_nodes dyn doc (nd # nodes) = build_nodes dyn doc nodes)"
proof (intro conjI impI)
  assume h: "keeps_kind h"
    and noblock: "re_match BLOCK_RE (getTopLevelText (w_children w)) = None"
    and run: "recurseAndParseElements h (Suc n) w = Some (res, w')"
    and j: "j < length (w_children w)"
    and node: "w_children w ! j = ElementNode c kids"
    and skip: "skipped_child c"
  show "\<exists>c'. w_children w' ! j = ElementNode c' kids \<and> same_kind c c'"
  proof (cases "re_match BASE_RE (getTopLevelText (w_children w))")
    case None
    with noblock run have "children_loop (recurseAndParseElements h n)
        [0 ..< length (w_children w)] ([], w) = Some (res, w')"
      by simp
    from children_loop_frame [OF this] node skip
    have "w_children w' ! j = ElementNode c kids" by (simp add: untouched_def)
    then show ?thesis by (auto simp: same_kind_refl)
  next
    case (Some m)
    obtain toAdd w1 where b: "inline_branch h w m = (toAdd, w1)"
      by (cases "inline_branch h w m")
    with noblock Some run have loop: "children_loop (recurseAndParseElements h n)
        [0 ..< length (w_children w1)] ([toAdd], w1) = Some (res, w')"
      by simp
    from inline_branch_children [OF h b j node]
    obtain c1 where c1: "w_children w1 ! j = ElementNode c1 kids" and kind: "same_kind c c1"
      by blast
    from kind skip have "skipped_child c1" by (simp add: skipped_child_kind)
    with children_loop_frame [OF loop] c1
    have "w_children w' ! j = ElementNode c1 kids" by (simp add: untouched_def)
    with kind show ?thesis by auto
  qed
next
  assume "\<forall>x. \<not> skipped_child (w_el x) \<longrightarrow> rec x = rec' x"
  then show "children_loop rec is acc = children_loop rec' is acc"
    by (intro children_loop_never_calls_skipped) simp
next
  assume "node_props nd = Some tokenProps"
    and "''hmd-codeblock'' \<in> set (split_char CHR '' '' tokenProps)"
  then show "enter dyn doc nd = Inr []" by (rule enter_codeblock)
next
  assume "node_props nd = Some tokenProps"
    and "''hmd-codeblock'' \<in> set (split_char CHR '' '' tokenProps)"
  then have "enter dyn doc nd = Inr []" by (rule enter_codeblock)
  then show "build_nodes dyn doc (nd # nodes) = build_nodes dyn doc nodes"
    by (simp split: sum.splits)
qed

text \<open>
  A paragraph with inline code followed by \<open>{.note}\<close>: the \<open>code\<close> element receives
  the class, its text \<open>{.inner}\<close> is neither read as an annotation nor changed; a
  syntax node of a code block yields no token where the same text in another node yields
  two.
\<close>

lemma code_children_are_opaque_example:
  "recurseAndParseElements dom (Suc (Suc 0)) p_code =
     Some ([\<lparr>ewa_element = Some (TChild 0), ewa_attributes = Some [(''class'', Some ''note'')],
              ewa_text = Some ''.note''\<rparr>],
           \<lparr>w_anc = [new_element ''DIV''], w_el = new_element ''P'',
              w_children =
                [ElementNode \<lparr>tagName = ''CODE'', is_html = True, classList = [''note''], el_attributes = []\<rparr>
                   [TextNode ''{.inner}''],
                 TextNode '' text '']\<rparr>) \<and>
   (\<exists>c'. w_children
           \<lparr>w_anc = [new_element ''DIV''], w_el = new_element ''P'',
              w_children =
                [ElementNode \<lparr>tagName = ''CODE'', is_html = True, classList = [''note''], el_attributes = []\<rparr>
                   [TextNode ''{.inner}''],
                 TextNode '' text '']\<rparr> ! 0 = ElementNode c' [TextNode ''{.inner}''] \<and>
         same_kind (new_element ''CODE'') c') \<and>
   enter (\<lambda>text original. DynMatch 0 original) ''{.note}''
     \<lparr>node_props = Some ''line hmd-codeblock'', node_from = 0, node_to = 7\<rparr> = Inr [] \<and>
   enter (\<lambda>text original. DynMatch 0 original) ''{.note}''
     \<lparr>node_props = Some ''line'', node_from = 0, node_to = 7\<rparr> =
     Inr [MarkToken 0 7 ''.note'' (Some [(''class'', Some ''note'')]),
          ReplaceToken (- 1) 7 (0, 7) ''{.note}'' 0]"
proof -
  have noblock: "re_match BLOCK_RE (getTopLevelText (w_children p_code)) = None"
    by code_simp
  have run: "recurseAndParseElements dom (Suc (Suc 0)) p_code =
     Some ([\<lparr>ewa_element = Some (TChild 0), ewa_attributes = Some [(''class'', Some ''note'')],
              ewa_text = Some ''.note''\<rparr>],
           \<lparr>w_anc = [new_element ''DIV''], w_el = new_element ''P'',
              w_children =
                [ElementNode \<lparr>tagName = ''CODE'', is_html = True, classList = [''note''], el_attributes = []\<rparr>
                   [TextNode ''{.inner}''],
                 TextNode '' text '']\<rparr>)"
    by code_simp
  have j: "0 < length (w_children p_code)"
    by code_simp
  have node: "w_children p_code ! 0 = ElementNode (new_element ''CODE'') [TextNode ''{.inner}'']"
    by code_simp
  have skip: "skipped_child (new_element ''CODE'')"
    by code_simp
  have props: "node_props \<lparr>node_props = Some ''line hmd-codeblock'', node_from = 0, node_to = 7\<rparr> =
      Some ''line hmd-codeblock''"
    by simp
  have tagged: "''hmd-codeblock'' \<in> set (split_char CHR '' '' ''line hmd-codeblock'')"
    by code_simp
  have other: "enter (\<lambda>text original. DynMatch 0 original) ''{.note}''
     \<lparr>node_props = Some ''line'', node_from = 0, node_to = 7\<rparr> =
     Inr [MarkToken 0 7 ''.note'' (Some [(''class'', Some ''note'')]),
          ReplaceToken (- 1) 7 (0, 7) ''{.note}'' 0]"
    by code_simp
  note inst = code_children_are_opaque [of dom p_code "Suc 0" _ _ 0 "new_element ''CODE''"
      "[TextNode ''{.inner}'']" _ _ _ _
      "\<lparr>node_props = Some ''line hmd-codeblock'', node_from = 0, node_to = 7\<rparr>"
      "''line hmd-codeblock''" "\<lambda>text original. DynMatch 0 original" "''{.note}''"]
  from inst keeps_kind_dom noblock run j node skip
  have kept: "\<exists>c'. w_children
           \<lparr>w_anc = [new_element ''DIV''], w_el = new_element ''P'',
              w_children =
                [ElementNode \<lparr>tagName = ''CODE'', is_html = True, classList = [''note''], el_attributes = []\<rparr>
                   [TextNode ''{.inner}''],
                 TextNode '' text '']\<rparr> ! 0 = ElementNode c' [TextNode ''{.inner}''] \<and>
         same_kind (new_element ''CODE'') c'"
    by blast
  from inst props tagged
  have none: "enter (\<lambda>text original. DynMatch 0 original) ''{.note}''
     \<lparr>node_props = Some ''line hmd-codeblock'', node_from = 0, node_to = 7\<rparr> = Inr []"
    by blast
  from run kept none other show ?thesis by blast
qed

text \<open>
  C4. The claim is that the content of a code block is never changed. The loop over the
  children does pass over a \<open>pre\<close> element, but an element with a block annotation is
  rewritten through its \<open>innerHTML\<close>, the markup of its descendants included, and the
  first occurrence of the matched text in that markup is the one removed. In the list
  item that holds a code block whose last line reads \<open>{.note}\<close> and then the block
  annotation \<open>{.note}\<close>, the first occurrence is the last line of the code block: the
  block branch removes that line from the code and leaves the annotation of the list
  item in the text, where the second run of the walk finds it. The walk returns with
  the code block one line shorter.
\<close>

theorem block_branch_edits_code_content:
  "li_code =
     \<lparr>w_anc = [new_element ''UL''], w_el = new_element ''LI'',
        w_children =
          [TextNode ''Item'',
           ElementNode (new_element ''PRE'')
             [ElementNode (new_element ''CODE'') [TextNode (''x'' @ [NL] @ ''{.note}'' @ [NL])]],
           TextNode (NL # ''{.note}'')]\<rparr> \<and>
   skipped_child (new_element ''PRE'') \<and>
   re_match BLOCK_RE (getTopLevelText (w_children li_code)) =
     Some \<lparr>r_index = 4, r_end = 12, r_text = NL # ''{.note}'', r_group = Some ''.note''\<rparr> \<and>
   dom_get_innerHTML (w_children li_code) =
     ''Item<pre><code>x'' @ [NL] @ ''{.note}'' @ [NL] @ ''</code></pre>'' @ [NL] @ ''{.note}'' \<and>
   snd (block_branch dom li_code
          \<lparr>r_index = 4, r_end = 12, r_text = NL # ''{.note}'', r_group = Some ''.note''\<rparr>) =
     \<lparr>w_anc = [\<lparr>tagName = ''UL'', is_html = True, classList = [''note''], el_attributes = []\<rparr>],
        w_el = new_element ''LI'',
        w_children =
          [TextNode ''Item'',
           ElementNode (new_element ''PRE'')
             [ElementNode (new_element ''CODE'') [TextNode (''x'' @ [NL])]],
           TextNode (NL # ''{.note}'')]\<rparr> \<and>
   recurseAndParseElements dom 5 li_code =
     Some ([\<lparr>ewa_element = Some (TAncestor 0), ewa_attributes = Some [(''class'', Some ''note'')],
              ewa_text = Some ''.note''\<rparr>,
            \<lparr>ewa_element = Some (TAncestor 0), ewa_attributes = Some [(''class'', Some ''note'')],
              ewa_text = Some ''.note''\<rparr>],
           \<lparr>w_anc = [\<lparr>tagName = ''UL'', is_html = True, classList = [''note''], el_attributes = []\<rparr>],
              w_el = new_element ''LI'',
              w_children =
                [TextNode ''Item'',
                 ElementNode (new_element ''PRE'')
                   [ElementNode (new_element ''CODE'') [TextNode (''x'' @ [NL])]]]\<rparr>)"
  by (intro conjI) code_simp+

end
